theory Spec2Isabelle
  imports Complex_Main
begin

section \<open>Surveillance panel: capture worker, tracker, alert export, configuration\<close>

text \<open>
  A shallow embedding of \<^verbatim>\<open>CaptureWorker\<close> (CameraStream.cpp), of the CSV writer of
  \<^verbatim>\<open>AlertLogModel\<close> and of the configuration loader of \<^verbatim>\<open>CameraManager\<close>.

  Conventions of the embedding:
  \<^item> a C++ \<^verbatim>\<open>double\<close> is a \<^typ>\<open>real\<close>, with the comparisons and branches of the
    source; in the tracker, where a match is decided by comparing a computed distance
    with the constant 0.1, every operation is rounded to the nearest double
    (\<open>double\<close> below); elsewhere the arithmetic is that of the reals;
  \<^item> a \<^verbatim>\<open>qint64\<close> time stamp is an \<^typ>\<open>int\<close>: the values are readings of
    \<^verbatim>\<open>QDateTime::currentMSecsSinceEpoch()\<close> and zero initialisers, whose differences
    do not leave 64 bits;
  \<^item> every reading of the clock is an input of the function that reads it;
  \<^item> the results of the OpenCV calls on a frame (pixel counts, image moments, the
    detector's output) are fields of the frame given to the model;
  \<^item> a function that mutates the worker returns the new worker together with the list
    of signals it emitted, in order.
\<close>

subsection \<open>Points and Qt's comparisons\<close>

record QPointF =
  xp :: real
  yp :: real

definition QPointF_null :: QPointF where
  "QPointF_null = \<lparr>xp = 0, yp = 0\<rparr>"

definition qFuzzyIsNull :: "real \<Rightarrow> bool" where
  "qFuzzyIsNull d = (\<bar>d\<bar> \<le> 1 / 10 ^ 12)"

definition qFuzzyCompare :: "real \<Rightarrow> real \<Rightarrow> bool" where
  "qFuzzyCompare p1 p2 = (\<bar>p1 - p2\<bar> * 10 ^ 12 \<le> min \<bar>p1\<bar> \<bar>p2\<bar>)"

text \<open>\<^verbatim>\<open>operator==(QPointF, QPointF)\<close> of Qt 6: a fuzzy comparison per coordinate.\<close>

definition QPointF_eq :: "QPointF \<Rightarrow> QPointF \<Rightarrow> bool" where
  "QPointF_eq p1 p2 =
     ((if xp p1 = 0 \<or> xp p2 = 0 then qFuzzyIsNull (xp p1 - xp p2)
       else qFuzzyCompare (xp p1) (xp p2)) \<and>
      (if yp p1 = 0 \<or> yp p2 = 0 then qFuzzyIsNull (yp p1 - yp p2)
       else qFuzzyCompare (yp p1) (yp p2)))"

definition QPointF_isNull :: "QPointF \<Rightarrow> bool" where
  "QPointF_isNull p = (xp p = 0 \<and> yp p = 0)"

subsection \<open>Double-precision arithmetic\<close>

text \<open>
  The rounding of IEEE 754 binary64, to nearest with ties to the even significand:
  \<open>double x\<close> is the multiple of \<open>2 powi (e - 52)\<close> nearest to \<open>x\<close>, where \<open>2 powi e\<close> is
  the power of two at or below \<open>\<bar>x\<bar>\<close>. The exponent range is not bounded: the numbers
  rounded here (quotients of pixel coordinates by a frame size, their differences,
  squares, sums and a square root) stay inside the normal range of the format.
\<close>

definition round_even :: "real \<Rightarrow> int" where
  "round_even x =
     (let f = \<lfloor>x\<rfloor> in
      if x - of_int f < 1 / 2 then f
      else if x - of_int f > 1 / 2 then f + 1
      else if even f then f else f + 1)"

definition double :: "real \<Rightarrow> real" where
  "double x =
     (if x = 0 then 0
      else (let e = \<lfloor>log 2 \<bar>x\<bar>\<rfloor>; ulp = 2 powi (e - 52) in
            of_int (round_even (x / ulp)) * ulp))"

subsection \<open>Detections, tracks, signals\<close>

record Rect =
  rect_x :: int
  rect_y :: int
  rect_width :: int
  rect_height :: int

record Detection =
  classId :: int
  score :: real
  box :: Rect

text \<open>What the worker reads of the \<^verbatim>\<open>ObjectDetector\<close> it points to.\<close>

record ObjectDetector =
  isLoaded :: bool
  classNames :: "string list"

text \<open>\<^verbatim>\<open>struct TrackState\<close>; the field \<^verbatim>\<open>id\<close> is \<open>idT\<close> here.\<close>

record TrackState =
  idT :: int
  label :: string
  centroid :: QPointF
  prevCentroid :: QPointF
  firstSeenMs :: int
  lastSeenMs :: int
  insideRoi :: bool
  loiterAlertSent :: bool
  lastTripwireAlertMs :: int
  enteredRoiMs :: int

text \<open>The constructor \<^verbatim>\<open>TrackState()\<close>.\<close>

definition TrackState_init :: TrackState where
  "TrackState_init =
     \<lparr>idT = 0, label = [], centroid = QPointF_null, prevCentroid = QPointF_null,
      firstSeenMs = 0, lastSeenMs = 0, insideRoi = False, loiterAlertSent = False,
      lastTripwireAlertMs = 0, enteredRoiMs = 0\<rparr>"

datatype signal =
    frameCaptured
  | fpsUpdated real
  | errorOccurred string
  | motionDetected real
  | roiMotionDetected real
  | tripwireCrossed int
  | aiDetectionsReady "Detection list"
  | trackCrossedTripwire int string string
  | loiteringDetected int string int

text \<open>
  An emitted signal. \<open>EmittedAt t s\<close> records the value \<open>t\<close> of the local
  \<^verbatim>\<open>currentTime\<close> the emitting function had read; \<open>Emitted s\<close> is a signal of a
  function that read no clock.
\<close>

datatype emission = Emitted signal | EmittedAt int signal

subsection \<open>The worker\<close>

type_synonym tracks = "(int \<times> TrackState) list"

record CaptureWorker =
  m_captureOpened :: bool
  m_running :: bool
  m_lastFrameTime :: int
  m_frameCount :: int
  m_currentFps :: real
  m_motionEnabled :: bool
  m_motionSensitivity :: real
  m_lastMotionTime :: int
  m_roiNorm :: "QPointF list"
  m_hasRoi :: bool
  m_lastRoiAlertTime :: int
  m_tripwireStartNorm :: QPointF
  m_tripwireEndNorm :: QPointF
  m_hasTripwire :: bool
  m_lastTripwireAlertTime :: int
  m_prevSide :: real
  m_hasPrevSide :: bool
  m_detector :: "ObjectDetector option"
  m_aiEnabled :: bool
  m_aiFrameCounter :: int
  m_tracks :: tracks
  m_nextTrackId :: int

definition AI_PROCESS_INTERVAL :: int where "AI_PROCESS_INTERVAL = 5"
definition MAX_TRACK_DISTANCE :: real where "MAX_TRACK_DISTANCE = double (1 / 10)"
definition TRACK_TIMEOUT_MS :: int where "TRACK_TIMEOUT_MS = 2000"
definition LINE_EPSILON :: real where "LINE_EPSILON = 1 / 10000"
definition TRIPWIRE_ALERT_DEBOUNCE_MS :: int where "TRIPWIRE_ALERT_DEBOUNCE_MS = 2000"
definition LOITERING_THRESHOLD_MS :: int where "LOITERING_THRESHOLD_MS = 8000"

text \<open>The constructor \<^verbatim>\<open>CaptureWorker::CaptureWorker\<close>.\<close>

definition CaptureWorker_init :: CaptureWorker where
  "CaptureWorker_init =
     \<lparr>m_captureOpened = False, m_running = False, m_lastFrameTime = 0, m_frameCount = 0,
      m_currentFps = 0, m_motionEnabled = False, m_motionSensitivity = 50,
      m_lastMotionTime = 0, m_roiNorm = [], m_hasRoi = False, m_lastRoiAlertTime = 0,
      m_tripwireStartNorm = QPointF_null, m_tripwireEndNorm = QPointF_null,
      m_hasTripwire = False, m_lastTripwireAlertTime = 0, m_prevSide = 0,
      m_hasPrevSide = False, m_detector = None, m_aiEnabled = False,
      m_aiFrameCounter = 0, m_tracks = [], m_nextTrackId = 1\<rparr>"

text \<open>
  A frame read from the capture, with what OpenCV and the detector compute from it:
  \<open>motionPixels\<close> is \<^verbatim>\<open>countNonZero(fgMask)\<close> after the two morphology passes,
  \<open>mask_m00\<close>, \<open>mask_m10\<close>, \<open>mask_m01\<close> are the moments of that mask, \<open>roiArea\<close> and
  \<open>roiMotionPixels\<close> the pixel counts of the rasterised polygon and of its
  intersection with the mask, \<open>inferred\<close> the result of \<^verbatim>\<open>infer\<close> (\<open>None\<close> when it
  throws). The \<open>clock_\<close> fields are the readings of the clock in the functions named.
\<close>

record Frame =
  frame_empty :: bool
  cols :: int
  rows :: int
  motionPixels :: int
  mask_m00 :: real
  mask_m10 :: real
  mask_m01 :: real
  roiArea :: int
  roiMotionPixels :: int
  inferred :: "Detection list option"
  clock_motion :: int
  clock_roi :: int
  clock_tripwire :: int
  clock_tracks :: int
  clock_fps :: int

subsection \<open>Motion detection\<close>

text \<open>The local \<^verbatim>\<open>threshold\<close> of processMotionDetection and processRoiMotion.\<close>

definition threshold :: "real \<Rightarrow> real" where
  "threshold sensitivity = 10 - (sensitivity / 100) * 9.5"

definition processRoiMotion :: "CaptureWorker \<Rightarrow> Frame \<Rightarrow> CaptureWorker \<times> emission list" where
  "processRoiMotion w f =
     (if length (m_roiNorm w) < 3 then (w, [])
      else if roiArea f = 0 then (w, [])
      else
        let roiScore = (real_of_int (roiMotionPixels f) * 100) / real_of_int (roiArea f) in
        if roiScore > threshold (m_motionSensitivity w) then
          (let currentTime = clock_roi f in
           if currentTime - m_lastRoiAlertTime w > 3000
           then (w\<lparr>m_lastRoiAlertTime := currentTime\<rparr>,
                 [EmittedAt currentTime (roiMotionDetected roiScore)])
           else (w, []))
        else (w, []))"

definition processTripwire :: "CaptureWorker \<Rightarrow> Frame \<Rightarrow> CaptureWorker \<times> emission list" where
  "processTripwire w f =
     (if mask_m00 f < 100 then (w\<lparr>m_hasPrevSide := False\<rparr>, [])
      else
        let cx = mask_m10 f / mask_m00 f;
            cy = mask_m01 f / mask_m00 f;
            x1 = xp (m_tripwireStartNorm w) * real_of_int (cols f);
            y1 = yp (m_tripwireStartNorm w) * real_of_int (rows f);
            x2 = xp (m_tripwireEndNorm w) * real_of_int (cols f);
            y2 = yp (m_tripwireEndNorm w) * real_of_int (rows f);
            curSide = (cx - x1) * (y2 - y1) - (cy - y1) * (x2 - x1);
            (w1, es) =
              (if m_hasPrevSide w \<and> curSide * m_prevSide w < 0 then
                 (let lineLength = sqrt ((x2 - x1) * (x2 - x1) + (y2 - y1) * (y2 - y1));
                      distance = \<bar>curSide\<bar> / lineLength in
                  if distance < 50 then
                    (let currentTime = clock_tripwire f in
                     if currentTime - m_lastTripwireAlertTime w > 2000
                     then (w\<lparr>m_lastTripwireAlertTime := currentTime\<rparr>,
                           [EmittedAt currentTime
                              (tripwireCrossed (if curSide > 0 \<and> m_prevSide w < 0 then 1 else - 1))])
                     else (w, []))
                  else (w, []))
               else (w, []))
        in (w1\<lparr>m_prevSide := curSide, m_hasPrevSide := True\<rparr>, es))"

definition processMotionDetection :: "CaptureWorker \<Rightarrow> Frame \<Rightarrow> CaptureWorker \<times> emission list" where
  "processMotionDetection w f =
     (let totalPixels = rows f * cols f;
          motionScore = (real_of_int (motionPixels f) * 100) / real_of_int totalPixels;
          (w1, es1) =
            (if motionScore > threshold (m_motionSensitivity w) then
               (let currentTime = clock_motion f in
                if currentTime - m_lastMotionTime w > 2000
                then (w\<lparr>m_lastMotionTime := currentTime\<rparr>,
                      [EmittedAt currentTime (motionDetected motionScore)])
                else (w, []))
             else (w, []));
          (w2, es2) = (if m_hasRoi w1 then processRoiMotion w1 f else (w1, []));
          (w3, es3) = (if m_hasTripwire w2 then processTripwire w2 f else (w2, []))
      in (w3, es1 @ es2 @ es3))"

subsection \<open>The track map\<close>

text \<open>
  \<^verbatim>\<open>QMap<int, TrackState>\<close> is an association list in ascending key order, the order
  in which the source iterates it. \<open>qmap_insert\<close> is \<^verbatim>\<open>m[k] = v\<close>, \<open>qmap_at\<close> reads
  \<^verbatim>\<open>m[k]\<close> (a default-constructed value when the key is absent).
\<close>

fun qmap_insert :: "int \<Rightarrow> TrackState \<Rightarrow> tracks \<Rightarrow> tracks" where
  "qmap_insert k v [] = [(k, v)]"
| "qmap_insert k v ((k', v') # m) =
     (if k < k' then (k, v) # (k', v') # m
      else if k = k' then (k, v) # m
      else (k', v') # qmap_insert k v m)"

definition qmap_at :: "tracks \<Rightarrow> int \<Rightarrow> TrackState" where
  "qmap_at m k = (case map_of m k of Some v \<Rightarrow> v | None \<Rightarrow> TrackState_init)"

definition qmap_contains :: "tracks \<Rightarrow> int \<Rightarrow> bool" where
  "qmap_contains m k = (map_of m k \<noteq> None)"

definition qmap_remove :: "int \<Rightarrow> tracks \<Rightarrow> tracks" where
  "qmap_remove k m = filter (\<lambda>kv. fst kv \<noteq> k) m"

text \<open>
  \<^verbatim>\<open>QSet<int>\<close> is a list without duplicates; the source iterates it in an order Qt
  leaves open, the model in the order of first insertion.
\<close>

definition qset_insert :: "int \<Rightarrow> int list \<Rightarrow> int list" where
  "qset_insert k s = (if k \<in> set s then s else s @ [k])"

subsection \<open>Line crossing and loitering of one track\<close>

definition computeSideOfLine :: "CaptureWorker \<Rightarrow> QPointF \<Rightarrow> real" where
  "computeSideOfLine w point =
     (let x1 = xp (m_tripwireStartNorm w);
          y1 = yp (m_tripwireStartNorm w);
          x2 = xp (m_tripwireEndNorm w);
          y2 = yp (m_tripwireEndNorm w)
      in (xp point - x1) * (y2 - y1) - (yp point - y1) * (x2 - x1))"

definition getCrossingDirection :: "real \<Rightarrow> real \<Rightarrow> string" where
  "getCrossingDirection prevSide currSide =
     (if prevSide < 0 \<and> currSide > 0 then ''left to right''
      else if prevSide > 0 \<and> currSide < 0 then ''right to left''
      else ''unknown'')"

definition checkLineCrossing ::
  "CaptureWorker \<Rightarrow> TrackState \<Rightarrow> int \<Rightarrow> TrackState \<times> emission list" where
  "checkLineCrossing w track currentTime =
     (if QPointF_eq (centroid track) (prevCentroid track) then (track, [])
      else if currentTime - lastTripwireAlertMs track < TRIPWIRE_ALERT_DEBOUNCE_MS
      then (track, [])
      else
        let prevSide = computeSideOfLine w (prevCentroid track);
            currSide = computeSideOfLine w (centroid track) in
        if \<bar>prevSide\<bar> > LINE_EPSILON \<and> \<bar>currSide\<bar> > LINE_EPSILON \<and> prevSide * currSide < 0
        then
          (let direction = getCrossingDirection prevSide currSide in
           (track\<lparr>lastTripwireAlertMs := currentTime\<rparr>,
            [EmittedAt currentTime (trackCrossedTripwire (idT track) (label track) direction)]))
        else (track, []))"

text \<open>
  The loop of pointInRoi visits the vertex pairs \<open>(i, j)\<close> = \<open>(0, n - 1), (1, 0), (2, 1), \<dots>\<close>;
  \<open>rayCast\<close> is that loop over the list of pairs.
\<close>

fun rayCast :: "QPointF \<Rightarrow> (QPointF \<times> QPointF) list \<Rightarrow> bool \<Rightarrow> bool" where
  "rayCast point [] inside = inside"
| "rayCast point ((p_i, p_j) # rest) inside =
     rayCast point rest
       (if ((yp p_i > yp point) \<noteq> (yp p_j > yp point)) \<and>
           xp point < (xp p_j - xp p_i) * (yp point - yp p_i) / (yp p_j - yp p_i) + xp p_i
        then \<not> inside else inside)"

definition pointInRoi :: "CaptureWorker \<Rightarrow> QPointF \<Rightarrow> bool" where
  "pointInRoi w point =
     (if \<not> m_hasRoi w \<or> length (m_roiNorm w) < 3 then False
      else rayCast point (zip (m_roiNorm w) (last (m_roiNorm w) # butlast (m_roiNorm w))) False)"

definition updateRoiStatus :: "CaptureWorker \<Rightarrow> TrackState \<Rightarrow> int \<Rightarrow> TrackState" where
  "updateRoiStatus w track currentTime =
     (let nowInside = pointInRoi w (centroid track);
          track1 =
            (if nowInside then
               (if \<not> insideRoi track then track\<lparr>enteredRoiMs := currentTime\<rparr> else track)
             else
               (if insideRoi track then track\<lparr>enteredRoiMs := 0, loiterAlertSent := False\<rparr>
                else track))
      in track1\<lparr>insideRoi := nowInside\<rparr>)"

definition checkLoitering :: "TrackState \<Rightarrow> int \<Rightarrow> TrackState \<times> emission list" where
  "checkLoitering track currentTime =
     (if \<not> insideRoi track then (track, [])
      else if loiterAlertSent track then (track, [])
      else
        let durationMs = currentTime - enteredRoiMs track in
        if durationMs \<ge> LOITERING_THRESHOLD_MS
        then (track\<lparr>loiterAlertSent := True\<rparr>,
              [EmittedAt currentTime (loiteringDetected (idT track) (label track) durationMs)])
        else (track, []))"

subsection \<open>updateTracks\<close>

record DetectionWithCentroid =
  dwc_centroid :: QPointF
  dwc_detectionIndex :: int
  dwc_label :: string

definition trackedClasses :: "string list" where
  "trackedClasses = [''person'', ''car'', ''bicycle'', ''dog'', ''cat'']"

text \<open>
  The first loop: the detections of a tracked class, with their normalised centroids.
  The box is a \<^verbatim>\<open>cv::Rect\<close> of integers, so half its width and the sum are exact in a
  double; the quotient by the frame size is rounded.
\<close>

fun trackedDetections ::
  "string list \<Rightarrow> int \<Rightarrow> int \<Rightarrow> int \<Rightarrow> Detection list \<Rightarrow> DetectionWithCentroid list" where
  "trackedDetections names frameWidth frameHeight i [] = []"
| "trackedDetections names frameWidth frameHeight i (det # dets) =
     (let lbl = (if classId det \<ge> 0 \<and> classId det < int (length names)
                 then names ! nat (classId det) else ''unknown'') in
      if lbl \<notin> set trackedClasses
      then trackedDetections names frameWidth frameHeight (i + 1) dets
      else
        let cx = double ((real_of_int (rect_x (box det)) + real_of_int (rect_width (box det)) / 2)
                   / real_of_int frameWidth);
            cy = double ((real_of_int (rect_y (box det)) + real_of_int (rect_height (box det)) / 2)
                   / real_of_int frameHeight)
        in \<lparr>dwc_centroid = \<lparr>xp = cx, yp = cy\<rparr>, dwc_detectionIndex = i, dwc_label = lbl\<rparr>
             # trackedDetections names frameWidth frameHeight (i + 1) dets)"

text \<open>
  The inner loop: the closest track, starting from \<open>(- 1, MAX_TRACK_DISTANCE)\<close>. The two
  differences, the two squares, their sum and the square root are each rounded to a
  double (no fused multiply-add); the comparison is that of the rounded distance.
\<close>

fun closestTrack :: "QPointF \<Rightarrow> tracks \<Rightarrow> int \<times> real \<Rightarrow> int \<times> real" where
  "closestTrack c [] best = best"
| "closestTrack c ((k, track) # rest) (bestTrackId, bestDistance) =
     (let dx = double (xp (centroid track) - xp c);
          dy = double (yp (centroid track) - yp c);
          dist = double (sqrt (double (double (dx * dx) + double (dy * dy)))) in
      if dist < bestDistance then closestTrack c rest (k, dist)
      else closestTrack c rest (bestTrackId, bestDistance))"

text \<open>
  The state of the assignment loop: the track map, \<^verbatim>\<open>m_nextTrackId\<close>, the set
  \<^verbatim>\<open>updatedTrackIds\<close>, and (kept for the statements only) the track id every
  detection went to, in input order.
\<close>

record Assignment =
  a_tracks :: tracks
  a_nextTrackId :: int
  updatedTrackIds :: "int list"
  assignedIds :: "int list"

definition assignDetection :: "int \<Rightarrow> Assignment \<Rightarrow> DetectionWithCentroid \<Rightarrow> Assignment" where
  "assignDetection currentTime a dwc =
     (let (bestTrackId, bestDistance) =
            closestTrack (dwc_centroid dwc) (a_tracks a) (- 1, MAX_TRACK_DISTANCE) in
      if bestTrackId \<ge> 0 then
        (let track = qmap_at (a_tracks a) bestTrackId;
             track' = track\<lparr>prevCentroid := centroid track,
                             centroid := dwc_centroid dwc,
                             lastSeenMs := currentTime\<rparr>
         in a\<lparr>a_tracks := qmap_insert bestTrackId track' (a_tracks a),
               updatedTrackIds := qset_insert bestTrackId (updatedTrackIds a),
               assignedIds := assignedIds a @ [bestTrackId]\<rparr>)
      else
        (let newTrack = TrackState_init
               \<lparr>idT := a_nextTrackId a,
                label := dwc_label dwc,
                centroid := dwc_centroid dwc,
                prevCentroid := dwc_centroid dwc,
                firstSeenMs := currentTime,
                lastSeenMs := currentTime,
                insideRoi := False,
                loiterAlertSent := False\<rparr>
         in a\<lparr>a_tracks := qmap_insert (idT newTrack) newTrack (a_tracks a),
               a_nextTrackId := a_nextTrackId a + 1,
               updatedTrackIds := qset_insert (idT newTrack) (updatedTrackIds a),
               assignedIds := assignedIds a @ [idT newTrack]\<rparr>))"

fun assignAll :: "int \<Rightarrow> Assignment \<Rightarrow> DetectionWithCentroid list \<Rightarrow> Assignment" where
  "assignAll currentTime a [] = a"
| "assignAll currentTime a (dwc # rest) =
     assignAll currentTime (assignDetection currentTime a dwc) rest"

text \<open>The loop over the updated ids that refreshes the ROI status and checks loitering.\<close>

fun roiLoop ::
  "CaptureWorker \<Rightarrow> int \<Rightarrow> int list \<Rightarrow> tracks \<Rightarrow> tracks \<times> emission list" where
  "roiLoop w currentTime [] m = (m, [])"
| "roiLoop w currentTime (trackId # ids) m =
     (if qmap_contains m trackId then
        (let track1 = updateRoiStatus w (qmap_at m trackId) currentTime;
             (track2, es) = checkLoitering track1 currentTime;
             (m', es') = roiLoop w currentTime ids (qmap_insert trackId track2 m)
         in (m', es @ es'))
      else roiLoop w currentTime ids m)"

text \<open>The loop over the updated ids that checks the tripwire.\<close>

fun lineLoop ::
  "CaptureWorker \<Rightarrow> int \<Rightarrow> int list \<Rightarrow> tracks \<Rightarrow> tracks \<times> emission list" where
  "lineLoop w currentTime [] m = (m, [])"
| "lineLoop w currentTime (trackId # ids) m =
     (if qmap_contains m trackId then
        (let (track1, es) = checkLineCrossing w (qmap_at m trackId) currentTime;
             (m', es') = lineLoop w currentTime ids (qmap_insert trackId track1 m)
         in (m', es @ es'))
      else lineLoop w currentTime ids m)"

text \<open>
  cleanupStaleTracks collects the stale keys and removes them one by one.
\<close>

definition staleKeys :: "int \<Rightarrow> tracks \<Rightarrow> int list" where
  "staleKeys currentTime m =
     map fst (filter (\<lambda>kv. currentTime - lastSeenMs (snd kv) > TRACK_TIMEOUT_MS) m)"

definition cleanupStaleTracks :: "int \<Rightarrow> tracks \<Rightarrow> tracks" where
  "cleanupStaleTracks currentTime m = fold qmap_remove (staleKeys currentTime m) m"

definition updateTracks ::
  "CaptureWorker \<Rightarrow> Detection list \<Rightarrow> int \<Rightarrow> int \<Rightarrow> int \<Rightarrow> CaptureWorker \<times> emission list" where
  "updateTracks w detections frameWidth frameHeight currentTime =
     (let names = (case m_detector w of Some d \<Rightarrow> classNames d | None \<Rightarrow> []);
          dwcs = trackedDetections names frameWidth frameHeight 0 detections;
          a = assignAll currentTime
                \<lparr>a_tracks = m_tracks w, a_nextTrackId = m_nextTrackId w,
                 updatedTrackIds = [], assignedIds = []\<rparr> dwcs;
          (m1, es1) = roiLoop w currentTime (updatedTrackIds a) (a_tracks a);
          (m2, es2) = (if m_hasTripwire w
                       then lineLoop w currentTime (updatedTrackIds a) m1 else (m1, []));
          m3 = cleanupStaleTracks currentTime m2
      in (w\<lparr>m_tracks := m3, m_nextTrackId := a_nextTrackId a\<rparr>, es1 @ es2))"

subsection \<open>The frame loop and the slots\<close>

definition detectorLoaded :: "CaptureWorker \<Rightarrow> bool" where
  "detectorLoaded w = (case m_detector w of Some d \<Rightarrow> isLoaded d | None \<Rightarrow> False)"

definition processAIDetection :: "CaptureWorker \<Rightarrow> Frame \<Rightarrow> CaptureWorker \<times> emission list" where
  "processAIDetection w f =
     (if \<not> detectorLoaded w then (w, [])
      else case inferred f of
        None \<Rightarrow> (w, [])
      | Some detections \<Rightarrow>
          (let (w1, es) = updateTracks w detections (cols f) (rows f) (clock_tracks f)
           in (w1, es @ [Emitted (aiDetectionsReady detections)])))"

definition captureFrame :: "CaptureWorker \<Rightarrow> Frame \<Rightarrow> CaptureWorker \<times> emission list" where
  "captureFrame w f =
     (if \<not> m_running w \<or> \<not> m_captureOpened w then (w, [])
      else if frame_empty f then (w, [Emitted (errorOccurred ''Failed to capture frame'')])
      else
        let (w1, es1) = (if m_motionEnabled w then processMotionDetection w f else (w, []));
            (w2, es2) =
              (if m_aiEnabled w1 \<and> detectorLoaded w1 then
                 (let w1' = w1\<lparr>m_aiFrameCounter := m_aiFrameCounter w1 + 1\<rparr> in
                  if m_aiFrameCounter w1' \<ge> AI_PROCESS_INTERVAL
                  then processAIDetection (w1'\<lparr>m_aiFrameCounter := 0\<rparr>) f
                  else (w1', []))
               else (w1, []));
            w3 = w2\<lparr>m_frameCount := m_frameCount w2 + 1\<rparr>;
            (w4, es4) =
              (if m_frameCount w3 \<ge> 10 then
                 (let currentTime = clock_fps f;
                      elapsed = currentTime - m_lastFrameTime w3;
                      (w3', es) =
                        (if elapsed > 0 then
                           (let fps = (real_of_int (m_frameCount w3) * 1000) / real_of_int elapsed
                            in (w3\<lparr>m_currentFps := fps\<rparr>, [EmittedAt currentTime (fpsUpdated fps)]))
                         else (w3, []))
                  in (w3'\<lparr>m_frameCount := 0, m_lastFrameTime := currentTime\<rparr>, es))
               else (w3, []))
        in (w4, es1 @ es2 @ [Emitted frameCaptured] @ es4))"

text \<open>
  What reaches the worker: a timer tick with the frame it reads, or one of its slots.
  \<open>Start ok t\<close> is \<^verbatim>\<open>start()\<close> where the capture opens iff \<open>ok\<close> and the clock reads \<open>t\<close>.
\<close>

datatype input =
    CaptureFrame Frame
  | Start bool int
  | Stop
  | SetMotionEnabled bool
  | SetMotionSensitivity real
  | SetRoiPolygon "QPointF list"
  | ClearRoi
  | SetTripwire QPointF QPointF
  | ClearTripwire
  | SetAiEnabled bool
  | SetObjectDetector "ObjectDetector option"

fun step :: "CaptureWorker \<Rightarrow> input \<Rightarrow> CaptureWorker \<times> emission list" where
  "step w (CaptureFrame f) = captureFrame w f"
| "step w (Start ok t) =
     (if m_running w then (w, [])
      else if \<not> ok
      then (w\<lparr>m_captureOpened := False\<rparr>, [Emitted (errorOccurred ''Failed to open camera'')])
      else (w\<lparr>m_captureOpened := True, m_running := True, m_lastFrameTime := t,
               m_frameCount := 0\<rparr>, []))"
| "step w Stop =
     (if \<not> m_running w then (w, [])
      else (w\<lparr>m_running := False, m_captureOpened := False\<rparr>, []))"
| "step w (SetMotionEnabled enabled) = (w\<lparr>m_motionEnabled := enabled\<rparr>, [])"
| "step w (SetMotionSensitivity sensitivity) = (w\<lparr>m_motionSensitivity := sensitivity\<rparr>, [])"
| "step w (SetRoiPolygon normalizedPoints) =
     (w\<lparr>m_roiNorm := normalizedPoints, m_hasRoi := (normalizedPoints \<noteq> []),
        m_lastRoiAlertTime := 0\<rparr>, [])"
| "step w ClearRoi = (w\<lparr>m_roiNorm := [], m_hasRoi := False, m_lastRoiAlertTime := 0\<rparr>, [])"
| "step w (SetTripwire startNorm endNorm) =
     (w\<lparr>m_tripwireStartNorm := startNorm, m_tripwireEndNorm := endNorm,
        m_hasTripwire := True, m_lastTripwireAlertTime := 0, m_hasPrevSide := False\<rparr>, [])"
| "step w ClearTripwire =
     (w\<lparr>m_tripwireStartNorm := QPointF_null, m_tripwireEndNorm := QPointF_null,
        m_hasTripwire := False, m_lastTripwireAlertTime := 0, m_hasPrevSide := False\<rparr>, [])"
| "step w (SetAiEnabled enabled) = (w\<lparr>m_aiEnabled := enabled, m_aiFrameCounter := 0\<rparr>, [])"
| "step w (SetObjectDetector detector) = (w\<lparr>m_detector := detector\<rparr>, [])"

fun run :: "CaptureWorker \<Rightarrow> input list \<Rightarrow> CaptureWorker \<times> emission list" where
  "run w [] = (w, [])"
| "run w (i # ins) =
     (let (w1, es1) = step w i; (w2, es2) = run w1 ins in (w2, es1 @ es2))"

subsection \<open>Reading the emitted signals\<close>

fun signal_of :: "emission \<Rightarrow> signal" where
  "signal_of (Emitted s) = s"
| "signal_of (EmittedAt t s) = s"

text \<open>The three signals of the motion path: whole-frame motion, ROI motion, mask tripwire.\<close>

fun motion_path_signal :: "signal \<Rightarrow> bool" where
  "motion_path_signal (motionDetected s) = True"
| "motion_path_signal (roiMotionDetected s) = True"
| "motion_path_signal (tripwireCrossed d) = True"
| "motion_path_signal _ = False"


fun motion_times :: "emission list \<Rightarrow> int list" where
  "motion_times [] = []"
| "motion_times (EmittedAt t (motionDetected s) # es) = t # motion_times es"
| "motion_times (e # es) = motion_times es"

fun roi_times :: "emission list \<Rightarrow> int list" where
  "roi_times [] = []"
| "roi_times (EmittedAt t (roiMotionDetected s) # es) = t # roi_times es"
| "roi_times (e # es) = roi_times es"

fun tripwire_times :: "emission list \<Rightarrow> int list" where
  "tripwire_times [] = []"
| "tripwire_times (EmittedAt t (tripwireCrossed d) # es) = t # tripwire_times es"
| "tripwire_times (e # es) = tripwire_times es"

fun track_tripwire_times :: "int \<Rightarrow> emission list \<Rightarrow> int list" where
  "track_tripwire_times k [] = []"
| "track_tripwire_times k (EmittedAt t (trackCrossedTripwire i l d) # es) =
     (if i = k then t # track_tripwire_times k es else track_tripwire_times k es)"
| "track_tripwire_times k (e # es) = track_tripwire_times k es"

fun loitering_times :: "int \<Rightarrow> emission list \<Rightarrow> int list" where
  "loitering_times k [] = []"
| "loitering_times k (EmittedAt t (loiteringDetected i l d) # es) =
     (if i = k then t # loitering_times k es else loitering_times k es)"
| "loitering_times k (e # es) = loitering_times k es"

text \<open>Every two neighbours of a list of times are at least \<open>d\<close> apart.\<close>

fun gaps_ok :: "int \<Rightarrow> int list \<Rightarrow> bool" where
  "gaps_ok d [] = True"
| "gaps_ok d [t] = True"
| "gaps_ok d (t # t' # ts) = (t' - t \<ge> d \<and> gaps_ok d (t' # ts))"

subsection \<open>Notions used in the statements about the tracker\<close>

text \<open>
  The local \<^verbatim>\<open>dist\<close> of the inner loop of updateTracks, for a point and a track, as
  the loop computes it; and the Euclidean distance of the point and the centroid of the
  track.
\<close>

definition trackDistance :: "QPointF \<Rightarrow> TrackState \<Rightarrow> real" where
  "trackDistance c track =
     (let dx = double (xp (centroid track) - xp c);
          dy = double (yp (centroid track) - yp c)
      in double (sqrt (double (double (dx * dx) + double (dy * dy)))))"

definition centroidDistance :: "QPointF \<Rightarrow> TrackState \<Rightarrow> real" where
  "centroidDistance c track =
     sqrt ((xp (centroid track) - xp c) * (xp (centroid track) - xp c) +
           (yp (centroid track) - yp c) * (yp (centroid track) - yp c))"

text \<open>
  What holds of the track map of a worker: the keys ascend strictly (it is a
  \<^verbatim>\<open>QMap\<close>), every track is stored under its own id, and every id in use is below
  \<^verbatim>\<open>m_nextTrackId\<close>.
\<close>

definition tracks_inv :: "tracks \<Rightarrow> int \<Rightarrow> bool" where
  "tracks_inv m nextId =
     (sorted_wrt (<) (map fst m) \<and> (\<forall>kv \<in> set m. idT (snd kv) = fst kv \<and> fst kv < nextId))"

text \<open>The times \<open>ts\<close>, in order, each at least \<open>d\<close> after the one before, the first after \<open>l\<close>.\<close>

fun gaps_from :: "int \<Rightarrow> int \<Rightarrow> int list \<Rightarrow> bool" where
  "gaps_from d l [] = True"
| "gaps_from d l (t # ts) = (t - l \<ge> d \<and> gaps_from d t ts)"


text \<open>The inputs that reset the debounce clock of the ROI, and those of the tripwire.\<close>

fun resets_roi :: "input \<Rightarrow> bool" where
  "resets_roi (SetRoiPolygon ps) = True"
| "resets_roi ClearRoi = True"
| "resets_roi _ = False"

fun resets_tripwire :: "input \<Rightarrow> bool" where
  "resets_tripwire (SetTripwire a b) = True"
| "resets_tripwire ClearTripwire = True"
| "resets_tripwire _ = False"

subsection \<open>Example inputs\<close>

text \<open>A 640 x 480 frame with an empty motion mask and no detection, every clock reading \<open>t\<close>.\<close>

definition quiet_frame :: "int \<Rightarrow> Frame" where
  "quiet_frame t =
     \<lparr>frame_empty = False, cols = 640, rows = 480, motionPixels = 0, mask_m00 = 0,
      mask_m10 = 0, mask_m01 = 0, roiArea = 0, roiMotionPixels = 0, inferred = Some [],
      clock_motion = t, clock_roi = t, clock_tripwire = t, clock_tracks = t, clock_fps = t\<rparr>"

text \<open>A detection of class 0 whose 40 x 40 box is centred at pixel \<open>(x, y)\<close>.\<close>

definition person_at :: "int \<Rightarrow> int \<Rightarrow> Detection" where
  "person_at x y =
     \<lparr>classId = 0, score = 9 / 10,
      box = \<lparr>rect_x = x - 20, rect_y = y - 20, rect_width = 40, rect_height = 40\<rparr>\<rparr>"

definition person_frame :: "int \<Rightarrow> Detection list \<Rightarrow> Frame" where
  "person_frame t dets = (quiet_frame t)\<lparr>inferred := Some dets\<rparr>"

definition coco :: ObjectDetector where
  "coco = \<lparr>isLoaded = True, classNames = [''person'', ''bicycle'', ''car'']\<rparr>"

text \<open>
  A session with motion detection never switched on: the detector is attached, AI
  detection enabled, a horizontal tripwire set at mid height, and a person is seen
  above the line at the fifth frame and below it at the tenth.
\<close>

definition ai_only_inputs :: "input list" where
  "ai_only_inputs =
     [SetObjectDetector (Some coco), SetAiEnabled True,
      SetTripwire \<lparr>xp = 0, yp = 1 / 2\<rparr> \<lparr>xp = 1, yp = 1 / 2\<rparr>, Start True 100000,
      CaptureFrame (quiet_frame 100033), CaptureFrame (quiet_frame 100066),
      CaptureFrame (quiet_frame 100099), CaptureFrame (quiet_frame 100132),
      CaptureFrame (person_frame 100165 [person_at 320 225]),
      CaptureFrame (quiet_frame 100198), CaptureFrame (quiet_frame 100231),
      CaptureFrame (quiet_frame 100264), CaptureFrame (quiet_frame 100297),
      CaptureFrame (person_frame 100330 [person_at 320 255])]"

text \<open>The track the session above holds after its fifth frame.\<close>

definition person_track :: TrackState where
  "person_track =
     \<lparr>idT = 1, label = ''person'', centroid = \<lparr>xp = 1 / 2, yp = 15 / 32\<rparr>,
      prevCentroid = \<lparr>xp = 1 / 2, yp = 15 / 32\<rparr>, firstSeenMs = 100165,
      lastSeenMs = 100165, insideRoi = False, loiterAlertSent = False,
      lastTripwireAlertMs = 0, enteredRoiMs = 0\<rparr>"

text \<open>A worker that tracks: the detector attached, a tripwire at mid height, the track above.\<close>

definition tracking_worker :: CaptureWorker where
  "tracking_worker =
     CaptureWorker_init
       \<lparr>m_captureOpened := True, m_running := True, m_lastFrameTime := 100000,
        m_tripwireStartNorm := \<lparr>xp = 0, yp = 1 / 2\<rparr>,
        m_tripwireEndNorm := \<lparr>xp = 1, yp = 1 / 2\<rparr>, m_hasTripwire := True,
        m_detector := Some coco, m_aiEnabled := True,
        m_tracks := [(1, person_track)], m_nextTrackId := 2\<rparr>"

text \<open>
  The square region of interest of the loitering scenario, a worker that has it, a
  track inside it since time 1000, and a session in which a person stands at its
  centre from the inference at 1000 ms to the one at 11500 ms, seen every 1500 ms.
\<close>

definition square_roi :: "QPointF list" where
  "square_roi = [\<lparr>xp = 3 / 10, yp = 3 / 10\<rparr>, \<lparr>xp = 7 / 10, yp = 3 / 10\<rparr>,
                 \<lparr>xp = 7 / 10, yp = 7 / 10\<rparr>, \<lparr>xp = 3 / 10, yp = 7 / 10\<rparr>]"





text \<open>The first step of processMotionDetection on its own: the whole-frame motion check.\<close>

definition motionCheck :: "CaptureWorker \<Rightarrow> Frame \<Rightarrow> CaptureWorker \<times> emission list" where
  "motionCheck w f =
     (let totalPixels = rows f * cols f;
          motionScore = (real_of_int (motionPixels f) * 100) / real_of_int totalPixels in
      if motionScore > threshold (m_motionSensitivity w) then
        (let currentTime = clock_motion f in
         if currentTime - m_lastMotionTime w > 2000
         then (w\<lparr>m_lastMotionTime := currentTime\<rparr>,
               [EmittedAt currentTime (motionDetected motionScore)])
         else (w, []))
      else (w, []))"

text \<open>The second step of captureFrame on its own: AI detection on every fifth frame.\<close>

definition aiStep :: "CaptureWorker \<Rightarrow> Frame \<Rightarrow> CaptureWorker \<times> emission list" where
  "aiStep w f =
     (if m_aiEnabled w \<and> detectorLoaded w then
        (let w' = w\<lparr>m_aiFrameCounter := m_aiFrameCounter w + 1\<rparr> in
         if m_aiFrameCounter w' \<ge> AI_PROCESS_INTERVAL
         then processAIDetection (w'\<lparr>m_aiFrameCounter := 0\<rparr>) f
         else (w', []))
      else (w, []))"

text \<open>
  The state of the assignment loop when updateTracks leaves it: the first two loops
  of updateTracks, on their own.
\<close>

definition assignTracks ::
  "CaptureWorker \<Rightarrow> Detection list \<Rightarrow> int \<Rightarrow> int \<Rightarrow> int \<Rightarrow> Assignment" where
  "assignTracks w detections frameWidth frameHeight currentTime =
     assignAll currentTime
       \<lparr>a_tracks = m_tracks w, a_nextTrackId = m_nextTrackId w,
        updatedTrackIds = [], assignedIds = []\<rparr>
       (trackedDetections (case m_detector w of Some d \<Rightarrow> classNames d | None \<Rightarrow> [])
          frameWidth frameHeight 0 detections)"

text \<open>
  What a track map and the next id say about the later crossing times \<open>ts\<close> of the
  track id \<open>k\<close>: they continue from the debounce clock of a track in the map, there
  are none for an id that was given out and is gone, and an id not yet given out only
  needs its own times to be spaced.
\<close>

definition track_view :: "tracks \<Rightarrow> int \<Rightarrow> int \<Rightarrow> int list \<Rightarrow> bool" where
  "track_view m nextId k ts =
     (case map_of m k of
        Some t \<Rightarrow> gaps_from 2000 (lastTripwireAlertMs t) ts
      | None \<Rightarrow> if k < nextId then ts = [] else gaps_ok 2000 ts)"

text \<open>A worker with the tripwire and the detector set and no track yet, and a frame with two detections a sixteenth of the frame height apart, on the two sides of the line.\<close>

definition empty_worker :: CaptureWorker where
  "empty_worker = tracking_worker\<lparr>m_tracks := [], m_nextTrackId := 1\<rparr>"

definition twin_detections :: "Detection list" where
  "twin_detections = [person_at 320 225, person_at 320 255]"

text \<open>Two detections a thirty-second of the frame height below and above the track of \<open>tracking_worker\<close>.\<close>

definition double_detections :: "Detection list" where
  "double_detections = [person_at 320 240, person_at 320 210]"

text \<open>
  A frame a tenth of whose pixels moved, a frame half of whose region of interest
  moved, a session with three frames of the first kind at 10000, 10500 and 12500 ms,
  and a session in which the region is set again between two frames of the second
  kind, 100 ms apart.
\<close>

definition motion_frame :: "int \<Rightarrow> Frame" where
  "motion_frame t = (quiet_frame t)\<lparr>motionPixels := 30720\<rparr>"

definition roi_frame :: "int \<Rightarrow> Frame" where
  "roi_frame t = (quiet_frame t)\<lparr>roiArea := 1000, roiMotionPixels := 500\<rparr>"

definition motion_inputs :: "input list" where
  "motion_inputs =
     [SetMotionEnabled True, Start True 9000, CaptureFrame (motion_frame 10000),
      CaptureFrame (motion_frame 10500), CaptureFrame (motion_frame 12500)]"

definition roi_reset_inputs :: "input list" where
  "roi_reset_inputs =
     [SetMotionEnabled True, SetRoiPolygon square_roi, Start True 9000,
      CaptureFrame (roi_frame 10000), SetRoiPolygon square_roi,
      CaptureFrame (roi_frame 10100)]"

text \<open>
  The list \<^verbatim>\<open>trackedDetections\<close> of an invocation of updateTracks, and the state of
  its assignment loop after the first \<open>j\<close> of them.
\<close>

definition trackedOf ::
  "CaptureWorker \<Rightarrow> Detection list \<Rightarrow> int \<Rightarrow> int \<Rightarrow> DetectionWithCentroid list" where
  "trackedOf w detections frameWidth frameHeight =
     trackedDetections (case m_detector w of Some d \<Rightarrow> classNames d | None \<Rightarrow> [])
       frameWidth frameHeight 0 detections"

definition assignFirst ::
  "CaptureWorker \<Rightarrow> Detection list \<Rightarrow> int \<Rightarrow> int \<Rightarrow> int \<Rightarrow> nat \<Rightarrow> Assignment" where
  "assignFirst w detections frameWidth frameHeight currentTime j =
     assignAll currentTime
       \<lparr>a_tracks = m_tracks w, a_nextTrackId = m_nextTrackId w,
        updatedTrackIds = [], assignedIds = []\<rparr>
       (take j (trackedOf w detections frameWidth frameHeight))"

text \<open>
  An 800 x 600 frame: the worker after a first person is seen at pixel (137, 85), the
  track this creates, and the stored centroid of a person seen next at pixel (89, 37),
  which is 48 pixels to the left and 48 pixels up: 0.06 of the width and 0.08 of the
  height.
\<close>

definition boundary_worker :: CaptureWorker where
  "boundary_worker = fst (updateTracks empty_worker [person_at 137 85] 800 600 1000)"

definition boundary_track :: TrackState where
  "boundary_track =
     \<lparr>idT = 1, label = ''person'',
      centroid = \<lparr>xp = double (137 / 800), yp = double (85 / 600)\<rparr>,
      prevCentroid = \<lparr>xp = double (137 / 800), yp = double (85 / 600)\<rparr>,
      firstSeenMs = 1000, lastSeenMs = 1000, insideRoi = False, loiterAlertSent = False,
      lastTripwireAlertMs = 0, enteredRoiMs = 0\<rparr>"

definition boundary_centroid :: QPointF where
  "boundary_centroid = \<lparr>xp = double (89 / 800), yp = double (37 / 600)\<rparr>"

text \<open>
  Two detections for the worker that holds \<open>person_track\<close>: one a sixteenth of the frame
  height below the track, one near the lower edge of the frame.
\<close>

definition near_far_detections :: "Detection list" where
  "near_far_detections = [person_at 320 255, person_at 320 465]"

subsection \<open>CSV export of the alert log\<close>

text \<open>
  \<^verbatim>\<open>struct Alert\<close> without its in-memory image; the fields \<^verbatim>\<open>id\<close> and \<^verbatim>\<open>type\<close> are
  \<open>id_a\<close> and \<open>type_a\<close>. The time stamp is of any type \<open>'ts\<close>, and
  \<^verbatim>\<open>toString(Qt::ISODate)\<close> is the parameter \<open>isoDate\<close> of the writer. A \<^verbatim>\<open>QString\<close> is a
  \<^typ>\<open>string\<close>; \<open>CHR 0x22\<close> is the double quote and \<open>CHR 0x0A\<close> the newline.
\<close>

record 'ts Alert =
  id_a :: string
  timestamp :: 'ts
  cameraName :: string
  type_a :: string
  message :: string
  snapshotPath :: string

text \<open>\<^verbatim>\<open>escaped.replace\<close> of a double quote by two double quotes.\<close>

definition replace_quotes :: "string \<Rightarrow> string" where
  "replace_quotes field = concat (map (\<lambda>c. if c = CHR 0x22 then [CHR 0x22, CHR 0x22] else [c]) field)"

text \<open>The lambda \<^verbatim>\<open>escape\<close> of exportAlertsToCsv.\<close>

definition escape :: "string \<Rightarrow> string" where
  "escape field =
     (let escaped = replace_quotes field in
      if CHR '','' \<in> set escaped \<or> CHR 0x22 \<in> set escaped \<or> CHR 0x0A \<in> set escaped
      then [CHR 0x22] @ escaped @ [CHR 0x22]
      else escaped)"

definition csv_header :: string where
  "csv_header = ''ID,Timestamp,Camera Name,Type,Message,Snapshot Path'' @ [CHR 0x0A]"

definition csv_row :: "('ts \<Rightarrow> string) \<Rightarrow> 'ts Alert \<Rightarrow> string" where
  "csv_row isoDate alert =
     escape (id_a alert) @ '','' @
     escape (isoDate (timestamp alert)) @ '','' @
     escape (cameraName alert) @ '','' @
     escape (type_a alert) @ '','' @
     escape (message alert) @ '','' @
     escape (snapshotPath alert) @ [CHR 0x0A]"

definition csv_text :: "('ts \<Rightarrow> string) \<Rightarrow> 'ts Alert list \<Rightarrow> string" where
  "csv_text isoDate alerts = csv_header @ concat (map (csv_row isoDate) alerts)"

text \<open>
  exportAlertsToCsv returns false without writing when the directory cannot be made or
  the file cannot be opened; otherwise the stream receives \<open>csv_text\<close>.
\<close>

definition exportAlertsToCsv ::
  "('ts \<Rightarrow> string) \<Rightarrow> bool \<Rightarrow> bool \<Rightarrow> bool \<Rightarrow> 'ts Alert list \<Rightarrow> string option" where
  "exportAlertsToCsv isoDate dirExists mkpathOk openOk alerts =
     (if \<not> dirExists \<and> \<not> mkpathOk then None
      else if \<not> openOk then None
      else Some (csv_text isoDate alerts))"

text \<open>
  A reader of comma-separated text, written here to state the round trip (the
  repository has no CSV reader): fields end at a comma, records at a newline, a field
  that starts with a double quote runs to the closing quote, and a doubled quote inside
  it stands for one quote.
\<close>

datatype csv_state = FieldStart | Unquoted | Quoted | QuoteSeen

fun csv_read :: "csv_state \<Rightarrow> string \<Rightarrow> string list \<Rightarrow> string \<Rightarrow> string list list" where
  "csv_read st cur row [] = (if st = FieldStart \<and> row = [] then [] else [row @ [cur]])"
| "csv_read FieldStart cur row (c # cs) =
     (if c = CHR 0x22 then csv_read Quoted [] row cs
      else if c = CHR '','' then csv_read FieldStart [] (row @ [[]]) cs
      else if c = CHR 0x0A then (row @ [[]]) # csv_read FieldStart [] [] cs
      else csv_read Unquoted [c] row cs)"
| "csv_read Unquoted cur row (c # cs) =
     (if c = CHR '','' then csv_read FieldStart [] (row @ [cur]) cs
      else if c = CHR 0x0A then (row @ [cur]) # csv_read FieldStart [] [] cs
      else csv_read Unquoted (cur @ [c]) row cs)"
| "csv_read Quoted cur row (c # cs) =
     (if c = CHR 0x22 then csv_read QuoteSeen cur row cs
      else csv_read Quoted (cur @ [c]) row cs)"
| "csv_read QuoteSeen cur row (c # cs) =
     (if c = CHR 0x22 then csv_read Quoted (cur @ [CHR 0x22]) row cs
      else if c = CHR '','' then csv_read FieldStart [] (row @ [cur]) cs
      else if c = CHR 0x0A then (row @ [cur]) # csv_read FieldStart [] [] cs
      else csv_read Unquoted (cur @ [c]) row cs)"

definition csv_parse :: "string \<Rightarrow> string list list" where
  "csv_parse text = csv_read FieldStart [] [] text"

definition alert_fields :: "('ts \<Rightarrow> string) \<Rightarrow> 'ts Alert \<Rightarrow> string list" where
  "alert_fields isoDate alert =
     [id_a alert, isoDate (timestamp alert), cameraName alert, type_a alert, message alert,
      snapshotPath alert]"

text \<open>What follows a field: the reader's continuation after a comma or a newline.\<close>

definition after_field :: "char \<Rightarrow> string list \<Rightarrow> string \<Rightarrow> string list list" where
  "after_field d row rest =
     (if d = CHR '','' then csv_read FieldStart [] row rest
      else row # csv_read FieldStart [] [] rest)"


text \<open>The alert of the escaping scenario: its message is \<^verbatim>\<open>He said, "hi"\<close>, a newline, \<^verbatim>\<open>OK\<close>.\<close>

definition quoted_message :: string where
  "quoted_message = ''He said, '' @ [CHR 0x22] @ ''hi'' @ [CHR 0x22, CHR 0x0A] @ ''OK''"

definition example_alert :: "string Alert" where
  "example_alert =
     \<lparr>id_a = ''20250101120000000'', timestamp = ''2025-01-01T12:00:00'',
      cameraName = ''Front Door'', type_a = ''motion'', message = quoted_message,
      snapshotPath = []\<rparr>"

subsection \<open>Loading the camera configuration\<close>

text \<open>
  A parsed JSON value, with Qt's conversions: a value of another kind converts to the
  empty string, false, zero, the empty array or the empty object. \<open>variantString\<close> is
  \<^verbatim>\<open>toVariant().toString()\<close>; how Qt prints a number is its parameter \<open>numberText\<close>.
\<close>

datatype json =
    JNull
  | JBool bool
  | JNumber real
  | JString string
  | JArray "json list"
  | JObject "(string \<times> json) list"

definition jvalue :: "(string \<times> json) list \<Rightarrow> string \<Rightarrow> json" where
  "jvalue obj key = (case map_of obj key of Some v \<Rightarrow> v | None \<Rightarrow> JNull)"

definition jcontains :: "(string \<times> json) list \<Rightarrow> string \<Rightarrow> bool" where
  "jcontains obj key = (map_of obj key \<noteq> None)"

fun toString :: "json \<Rightarrow> string" where
  "toString (JString s) = s"
| "toString _ = []"

fun toBool :: "json \<Rightarrow> bool" where
  "toBool (JBool b) = b"
| "toBool _ = False"

fun toDouble :: "json \<Rightarrow> real" where
  "toDouble (JNumber x) = x"
| "toDouble _ = 0"

fun toArray :: "json \<Rightarrow> json list" where
  "toArray (JArray vs) = vs"
| "toArray _ = []"

fun toObject :: "json \<Rightarrow> (string \<times> json) list" where
  "toObject (JObject kvs) = kvs"
| "toObject _ = []"

fun variantString :: "(real \<Rightarrow> string) \<Rightarrow> json \<Rightarrow> string" where
  "variantString numberText (JString s) = s"
| "variantString numberText (JNumber x) = numberText x"
| "variantString numberText (JBool b) = (if b then ''true'' else ''false'')"
| "variantString numberText _ = []"

record CameraConfig =
  id_c :: string
  name :: string
  type_c :: string
  source :: string
  enabled :: bool
  roiPoints :: "QPointF list"
  tripwireStart :: QPointF
  tripwireEnd :: QPointF
  hasRoi :: bool
  hasTripwire :: bool

text \<open>
  What loadConfiguration finds: a file it cannot open, or a file whose bytes
  \<^verbatim>\<open>QJsonDocument::fromJson\<close> turns into a document (\<open>None\<close> when the text is not JSON).
\<close>

datatype config_file = CannotOpen | Document "json option"

definition parsePoint :: "json \<Rightarrow> QPointF" where
  "parsePoint v = (let pointObj = toObject v in
     \<lparr>xp = toDouble (jvalue pointObj ''x''), yp = toDouble (jvalue pointObj ''y'')\<rparr>)"

definition parseCamera :: "(real \<Rightarrow> string) \<Rightarrow> json \<Rightarrow> CameraConfig" where
  "parseCamera numberText v =
     (let camObj = toObject v;
          points =
            (if jcontains camObj ''roi'' then
               (let roiObj = toObject (jvalue camObj ''roi'') in
                if jcontains roiObj ''points''
                then map parsePoint (toArray (jvalue roiObj ''points'')) else [])
             else []);
          roi =
            (if jcontains camObj ''roi'' \<and> jcontains (toObject (jvalue camObj ''roi'')) ''points''
             then points \<noteq> [] else False);
          tripObj = toObject (jvalue camObj ''tripwire'');
          tripwire = jcontains camObj ''tripwire'' \<and> jcontains tripObj ''start''
                       \<and> jcontains tripObj ''end'';
          start = (if tripwire then parsePoint (jvalue tripObj ''start'') else QPointF_null);
          end' = (if tripwire then parsePoint (jvalue tripObj ''end'') else QPointF_null)
      in \<lparr>id_c = toString (jvalue camObj ''id''),
          name = toString (jvalue camObj ''name''),
          type_c = toString (jvalue camObj ''type''),
          source = variantString numberText (jvalue camObj ''source''),
          enabled = toBool (jvalue camObj ''enabled''),
          roiPoints = points,
          tripwireStart = start,
          tripwireEnd = end',
          hasRoi = roi,
          hasTripwire =
            (tripwire \<and>
             \<not> (QPointF_isNull start \<and> QPointF_isNull end') \<and>
             \<not> (qFuzzyIsNull (xp start) \<and> qFuzzyIsNull (yp start) \<and>
                qFuzzyIsNull (xp end') \<and> qFuzzyIsNull (yp end')))\<rparr>)"

fun loadCameras ::
  "(real \<Rightarrow> string) \<Rightarrow> CameraConfig list \<Rightarrow> json list \<Rightarrow> CameraConfig list" where
  "loadCameras numberText configs [] = configs"
| "loadCameras numberText configs (v # vs) =
     (let configs' = configs @ [parseCamera numberText v] in
      if length configs' \<ge> 4 then configs' else loadCameras numberText configs' vs)"

definition loadConfiguration ::
  "(real \<Rightarrow> string) \<Rightarrow> config_file \<Rightarrow> CameraConfig list \<Rightarrow> bool \<times> CameraConfig list" where
  "loadConfiguration numberText file m_configs =
     (case file of
        CannotOpen \<Rightarrow> (False, m_configs)
      | Document None \<Rightarrow> (False, m_configs)
      | Document (Some (JObject rootObj)) \<Rightarrow>
          (let camerasArray = toArray (jvalue rootObj ''cameras'');
               configs = loadCameras numberText [] camerasArray
           in (configs \<noteq> [], configs))
      | Document (Some _) \<Rightarrow> (False, m_configs))"

definition defaultConfig :: CameraConfig where
  "defaultConfig =
     \<lparr>id_c = ''cam1'', name = ''Default Camera'', type_c = ''usb'', source = ''0'',
      enabled = True, roiPoints = [], tripwireStart = QPointF_null,
      tripwireEnd = QPointF_null, hasRoi = False, hasTripwire = False\<rparr>"

text \<open>
  A camera stream as createCameraStreams sets it up: the constructor's arguments, and
  the polygon and tripwire handed to it.
\<close>

record StreamSetup =
  stream_id :: string
  stream_source :: string
  stream_sourceType :: string
  stream_name :: string
  stream_roi :: "QPointF list option"
  stream_tripwire :: "(QPointF \<times> QPointF) option"

definition createCameraStream :: "CameraConfig \<Rightarrow> StreamSetup" where
  "createCameraStream config =
     \<lparr>stream_id = id_c config, stream_source = source config,
      stream_sourceType = type_c config, stream_name = name config,
      stream_roi = (if hasRoi config \<and> roiPoints config \<noteq> [] then Some (roiPoints config) else None),
      stream_tripwire = (if hasTripwire config
                         then Some (tripwireStart config, tripwireEnd config) else None)\<rparr>"

definition createCameraStreams :: "CameraConfig list \<Rightarrow> StreamSetup option list" where
  "createCameraStreams configs =
     map (\<lambda>i. if i < length configs \<and> enabled (configs ! i)
              then Some (createCameraStream (configs ! i)) else None) [0 ..< 4]"

record CameraManager =
  m_configs :: "CameraConfig list"
  m_cameras :: "StreamSetup option list"

text \<open>
  The constructor of CameraManager, from the loading of the configuration on; the
  detector it creates before is caught in a try block and plays no part here.
\<close>

definition CameraManager_init :: "(real \<Rightarrow> string) \<Rightarrow> config_file \<Rightarrow> CameraManager" where
  "CameraManager_init numberText file =
     (let (ok, configs) = loadConfiguration numberText file [];
          configs' = (if \<not> ok then configs @ [defaultConfig] else configs)
      in \<lparr>m_configs = configs', m_cameras = createCameraStreams configs'\<rparr>)"

fun isObject :: "json \<Rightarrow> bool" where
  "isObject (JObject kvs) = True"
| "isObject _ = False"

text \<open>A configuration file with one enabled USB camera.\<close>

definition front_door_file :: config_file where
  "front_door_file =
     Document (Some (JObject [(''cameras'', JArray [JObject
       [(''id'', JString ''front''), (''name'', JString ''Front Door''), (''type'', JString ''usb''),
        (''source'', JString ''1''), (''enabled'', JBool True)]])]))"

section \<open>Properties\<close>

subsection \<open>What each function emits\<close>

lemma motion_times_append: "motion_times (xs @ ys) = motion_times xs @ motion_times ys"
  by (induction xs rule: motion_times.induct) simp_all

lemma processRoiMotion_emits:
  "e \<in> set (snd (processRoiMotion w f)) \<Longrightarrow> \<exists>s. e = EmittedAt (clock_roi f) (roiMotionDetected s)"
  by (auto simp: processRoiMotion_def Let_def split: if_splits)

lemma processTripwire_emits:
  "e \<in> set (snd (processTripwire w f)) \<Longrightarrow> \<exists>d. e = EmittedAt (clock_tripwire f) (tripwireCrossed d)"
  by (auto simp: processTripwire_def Let_def case_prod_beta split: if_splits)

lemma processRoiMotion_motion_times: "motion_times (snd (processRoiMotion w f)) = []"
  by (simp add: processRoiMotion_def Let_def)

lemma processTripwire_motion_times: "motion_times (snd (processTripwire w f)) = []"
  by (simp add: processTripwire_def Let_def case_prod_beta)

lemma processMotionDetection_emits:
  "e \<in> set (snd (processMotionDetection w f)) \<Longrightarrow> motion_path_signal (signal_of e)"
  unfolding processMotionDetection_def Let_def case_prod_beta
  by (auto dest!: processRoiMotion_emits processTripwire_emits split: if_splits)

lemma checkLineCrossing_emits:
  "e \<in> set (snd (checkLineCrossing w tr now)) \<Longrightarrow>
   \<exists>d. e = EmittedAt now (trackCrossedTripwire (idT tr) (label tr) d) \<and>
       (d = ''left to right'' \<or> d = ''right to left'')"
  by (auto simp: checkLineCrossing_def Let_def getCrossingDirection_def mult_less_0_iff
      split: if_splits)

lemma checkLoitering_emits:
  "e \<in> set (snd (checkLoitering tr now)) \<Longrightarrow>
   \<exists>d. e = EmittedAt now (loiteringDetected (idT tr) (label tr) d) \<and> d \<ge> 8000"
  by (auto simp: checkLoitering_def Let_def LOITERING_THRESHOLD_MS_def split: if_splits)

lemma lineLoop_emits:
  "e \<in> set (snd (lineLoop w now ids m)) \<Longrightarrow>
   \<exists>i l d. e = EmittedAt now (trackCrossedTripwire i l d) \<and>
       (d = ''left to right'' \<or> d = ''right to left'')"
proof (induction ids arbitrary: m)
  case Nil
  then show ?case by simp
next
  case (Cons k ids)
  show ?case
  proof (cases "qmap_contains m k")
    case False
    with Cons show ?thesis by simp
  next
    case True
    with Cons.prems have
      "e \<in> set (snd (checkLineCrossing w (qmap_at m k) now)) \<or>
       e \<in> set (snd (lineLoop w now ids
                  (qmap_insert k (fst (checkLineCrossing w (qmap_at m k) now)) m)))"
      by (simp add: case_prod_beta)
    then show ?thesis
      using checkLineCrossing_emits Cons.IH by blast
  qed
qed

lemma roiLoop_emits:
  "e \<in> set (snd (roiLoop w now ids m)) \<Longrightarrow> \<exists>i l d. e = EmittedAt now (loiteringDetected i l d) \<and> d \<ge> 8000"
proof (induction ids arbitrary: m)
  case Nil
  then show ?case by simp
next
  case (Cons k ids)
  show ?case
  proof (cases "qmap_contains m k")
    case False
    with Cons show ?thesis by simp
  next
    case True
    with Cons.prems have
      "e \<in> set (snd (checkLoitering (updateRoiStatus w (qmap_at m k) now) now)) \<or>
       e \<in> set (snd (roiLoop w now ids
                  (qmap_insert k (fst (checkLoitering (updateRoiStatus w (qmap_at m k) now) now)) m)))"
      by (simp add: case_prod_beta Let_def)
    then show ?thesis
      using checkLoitering_emits Cons.IH by blast
  qed
qed

lemma updateTracks_emits:
  "e \<in> set (snd (updateTracks w dets fw fh now)) \<Longrightarrow>
   (\<exists>i l d. e = EmittedAt now (loiteringDetected i l d) \<and> d \<ge> 8000) \<or>
   (\<exists>i l d. e = EmittedAt now (trackCrossedTripwire i l d) \<and>
       (d = ''left to right'' \<or> d = ''right to left''))"
  unfolding updateTracks_def Let_def case_prod_beta
  by (auto dest: roiLoop_emits lineLoop_emits split: if_splits)

lemma processAIDetection_emits:
  "e \<in> set (snd (processAIDetection w f)) \<Longrightarrow>
   (\<exists>i l d. e = EmittedAt (clock_tracks f) (loiteringDetected i l d) \<and> d \<ge> 8000) \<or>
   (\<exists>i l d. e = EmittedAt (clock_tracks f) (trackCrossedTripwire i l d) \<and>
       (d = ''left to right'' \<or> d = ''right to left'')) \<or>
   (\<exists>dets. e = Emitted (aiDetectionsReady dets))"
  unfolding processAIDetection_def Let_def case_prod_beta
  by (auto dest!: updateTracks_emits split: if_splits option.splits)

lemma captureFrame_emits:
  assumes "e \<in> set (snd (captureFrame w f))"
  shows "(m_motionEnabled w \<and> motion_path_signal (signal_of e)) \<or>
   (\<exists>i l d. e = EmittedAt (clock_tracks f) (loiteringDetected i l d) \<and> d \<ge> 8000) \<or>
   (\<exists>i l d. e = EmittedAt (clock_tracks f) (trackCrossedTripwire i l d) \<and>
       (d = ''left to right'' \<or> d = ''right to left'')) \<or>
   (\<exists>dets. e = Emitted (aiDetectionsReady dets)) \<or>
   (\<exists>s. e = Emitted (errorOccurred s)) \<or>
   e = Emitted frameCaptured \<or>
   (\<exists>x. e = EmittedAt (clock_fps f) (fpsUpdated x))"
  using assms
  unfolding captureFrame_def Let_def case_prod_beta
  by (auto dest!: processAIDetection_emits processMotionDetection_emits split: if_splits)

lemma step_emits:
  assumes "e \<in> set (snd (step w i))"
  shows "(m_motionEnabled w \<and> motion_path_signal (signal_of e)) \<or>
   (\<exists>t i l d. e = EmittedAt t (loiteringDetected i l d) \<and> d \<ge> 8000) \<or>
   (\<exists>t i l d. e = EmittedAt t (trackCrossedTripwire i l d) \<and>
       (d = ''left to right'' \<or> d = ''right to left'')) \<or>
   (\<exists>dets. e = Emitted (aiDetectionsReady dets)) \<or>
   (\<exists>s. e = Emitted (errorOccurred s)) \<or>
   e = Emitted frameCaptured \<or>
   (\<exists>t x. e = EmittedAt t (fpsUpdated x))"
proof (cases i)
  case (CaptureFrame f)
  with assms have "e \<in> set (snd (captureFrame w f))" by simp
  from captureFrame_emits [OF this] show ?thesis by blast
qed (use assms in \<open>auto split: if_splits\<close>)

lemma run_Cons_snd:
  "set (snd (run w (i # ins))) = set (snd (step w i)) \<union> set (snd (run (fst (step w i)) ins))"
  by (simp add: case_prod_beta Let_def)

lemma run_emits_step:
  "e \<in> set (snd (run w ins)) \<Longrightarrow> \<exists>w' i. i \<in> set ins \<and> e \<in> set (snd (step w' i))"
proof (induction ins arbitrary: w)
  case Nil
  then show ?case by simp
next
  case (Cons i ins)
  then show ?case
    unfolding run_Cons_snd by (metis Un_iff list.set_intros(1,2))
qed

subsection \<open>Rounding to a double\<close>

lemma round_even_error: "\<bar>of_int (round_even x) - x\<bar> \<le> 1 / 2"
  unfolding round_even_def Let_def by (auto simp: abs_le_iff)

lemma round_even_near: "\<bar>x - of_int n\<bar> < 1 / 2 \<Longrightarrow> round_even x = n"
proof -
  assume a: "\<bar>x - of_int n\<bar> < 1 / 2"
  have "\<bar>of_int (round_even x) - x\<bar> \<le> 1 / 2" by (rule round_even_error)
  with a have "\<bar>of_int (round_even x) - (of_int n :: real)\<bar> < 1" by linarith
  then have "\<bar>round_even x - n\<bar> < 1" by (metis of_int_diff of_int_abs of_int_less_1_iff)
  then show ?thesis by simp
qed

lemma double_0: "double 0 = 0"
  by (simp add: double_def)

lemma floor_log2:
  assumes "2 powi e \<le> \<bar>x\<bar>" and "\<bar>x\<bar> < 2 powi (e + 1)"
  shows "\<lfloor>log 2 \<bar>x\<bar>\<rfloor> = e"
proof -
  have p: "0 < \<bar>x\<bar>" using assms(1) by (smt (verit) zero_less_power_int)
  have q: "(2::real) powr (of_int n) = 2 powi n" for n
    by (simp add: powr_real_of_int')
  have "(2::real) powr (of_int e) \<le> \<bar>x\<bar>" "\<bar>x\<bar> < (2::real) powr (of_int (e + 1))"
    unfolding q using assms by simp_all
  then have "(2::real) powr (of_int e) \<le> \<bar>x\<bar> \<and> \<bar>x\<bar> < (2::real) powr (of_int e + 1)"
    by simp
  with p show ?thesis
    using floor_log_eq_powr_iff [of "\<bar>x\<bar>" 2 e] by simp
qed

lemma double_eval:
  assumes "2 powi e \<le> \<bar>x\<bar>" and "\<bar>x\<bar> < 2 powi (e + 1)"
  shows "double x = of_int (round_even (x / 2 powi (e - 52))) * 2 powi (e - 52)"
proof -
  have "x \<noteq> 0" using assms(1) by (smt (verit) zero_less_power_int)
  then show ?thesis
    by (simp add: double_def Let_def floor_log2 [OF assms])
qed

lemma double_near:
  assumes "2 powi e \<le> \<bar>x\<bar>" and "\<bar>x\<bar> < 2 powi (e + 1)"
    and "\<bar>x / 2 powi (e - 52) - of_int n\<bar> < 1 / 2"
  shows "double x = of_int n * 2 powi (e - 52)"
  by (simp add: double_eval [OF assms(1,2)] round_even_near [OF assms(3)])

lemma double_tenth: "double (1 / 10) = 3602879701896397 / 36028797018963968"
  using double_near [of "-4" "1/10" 7205759403792794]
  by (simp add: power_int_minus)

lemma log2_bounds:
  assumes "x \<noteq> 0"
  shows "2 powi \<lfloor>log 2 \<bar>x\<bar>\<rfloor> \<le> \<bar>x\<bar>" and "\<bar>x\<bar> < 2 powi (\<lfloor>log 2 \<bar>x\<bar>\<rfloor> + 1)"
proof -
  let ?e = "\<lfloor>log 2 \<bar>x\<bar>\<rfloor>"
  have q: "(2::real) powr (of_int n) = 2 powi n" for n
    by (simp add: powr_real_of_int')
  from assms have "0 < \<bar>x\<bar>" by simp
  then have "(2::real) powr (of_int ?e) \<le> \<bar>x\<bar> \<and> \<bar>x\<bar> < (2::real) powr (of_int ?e + 1)"
    using floor_log_eq_powr_iff [of "\<bar>x\<bar>" 2 ?e] by simp
  then have "(2::real) powr (of_int ?e) \<le> \<bar>x\<bar> \<and> \<bar>x\<bar> < (2::real) powr (of_int (?e + 1))"
    by simp
  then show "2 powi ?e \<le> \<bar>x\<bar>" and "\<bar>x\<bar> < 2 powi (?e + 1)"
    unfolding q by simp_all
qed

lemma double_error: "\<bar>double x - x\<bar> \<le> \<bar>x\<bar> / 2 ^ 53"
proof (cases "x = 0")
  case True
  then show ?thesis by (simp add: double_def)
next
  case False
  define e where "e = \<lfloor>log 2 \<bar>x\<bar>\<rfloor>"
  define u :: real where "u = 2 powi (e - 52)"
  have u: "0 < u" by (simp add: u_def)
  have d: "double x = of_int (round_even (x / u)) * u"
    using False by (simp add: double_def Let_def e_def u_def)
  have "double x - x = (of_int (round_even (x / u)) - x / u) * u"
    using u by (simp add: d field_simps)
  then have "\<bar>double x - x\<bar> = \<bar>of_int (round_even (x / u)) - x / u\<bar> * u"
    using u by (simp add: abs_mult)
  also have "\<dots> \<le> (1 / 2) * u"
    using u round_even_error [of "x / u"] by (intro mult_right_mono) simp_all
  also have "(1 / 2) * u = 2 powi e / 2 ^ 53"
    by (simp add: u_def power_int_diff)
  also have "\<dots> \<le> \<bar>x\<bar> / 2 ^ 53"
    using log2_bounds(1) [OF False] by (simp add: e_def divide_right_mono)
  finally show ?thesis .
qed

lemma double_exact:
  assumes "x * 2 ^ k \<in> \<int>" and "\<bar>x\<bar> * 2 ^ k < 2 ^ 53"
  shows "double x = x"
proof (cases "x = 0")
  case True
  then show ?thesis by (simp add: double_def)
next
  case False
  define e where "e = \<lfloor>log 2 \<bar>x\<bar>\<rfloor>"
  from assms(1) obtain m where m: "x * 2 ^ k = of_int m" by (auto elim: Ints_cases)
  have lo: "2 powi e \<le> \<bar>x\<bar>" using log2_bounds(1) [OF False] by (simp add: e_def)
  have "2 powi e * 2 ^ k \<le> \<bar>x\<bar> * 2 ^ k"
    using lo by (intro mult_right_mono) simp_all
  moreover have "(2::real) powi (e + int k) = 2 powi e * 2 ^ k"
    by (simp add: power_int_add)
  moreover have "(2::real) ^ 53 = 2 powi 53"
    by simp
  ultimately have "(2::real) powi (e + int k) < 2 powi 53"
    using assms(2) by linarith
  then have "e + int k < 53"
    using power_int_increasing [of 53 "e + int k" "2::real"] by (cases "e + int k < 53") simp_all
  then have n: "0 \<le> 52 - e - int k" by simp
  have "x / 2 powi (e - 52) = (x * 2 ^ k) * 2 powi (52 - e - int k)"
    by (simp add: power_int_diff power_int_add field_simps)
  also have "\<dots> = of_int (m * 2 ^ nat (52 - e - int k))"
    using n by (simp add: m power_int_def)
  finally have i: "x / 2 powi (e - 52) = of_int (m * 2 ^ nat (52 - e - int k))" .
  have "round_even (x / 2 powi (e - 52)) = m * 2 ^ nat (52 - e - int k)"
    unfolding i by (rule round_even_near) simp
  then have "double x = of_int (m * 2 ^ nat (52 - e - int k)) * 2 powi (e - 52)"
    using False by (simp add: double_def Let_def e_def)
  also have "\<dots> = x"
    unfolding i [symmetric] by simp
  finally show ?thesis .
qed

lemma double_dyadic: "x * 2 ^ 40 \<in> \<int> \<Longrightarrow> \<bar>x\<bar> < 4096 \<Longrightarrow> double x = x"
  by (rule double_exact [of x 40]) simp_all

lemma double_sqrt:
  assumes "((of_int n - 1 / 2) * 2 powi (e - 52))\<^sup>2 < y"
    and "y < ((of_int n + 1 / 2) * 2 powi (e - 52))\<^sup>2"
    and "2 ^ 52 < n" and "n < 2 ^ 53"
  shows "double (sqrt y) = of_int n * 2 powi (e - 52)"
proof -
  define u :: real where "u = 2 powi (e - 52)"
  have u: "0 < u" by (simp add: u_def)
  from assms(3,4) have "2 ^ 52 + 1 \<le> n" "n \<le> 2 ^ 53 - 1" by simp_all
  then have "of_int (2 ^ 52 + 1) \<le> (of_int n :: real)" "(of_int n :: real) \<le> of_int (2 ^ 53 - 1)"
    by (simp_all only: of_int_le_iff)
  then have n: "(2::real) ^ 52 + 1 \<le> of_int n" "of_int n \<le> (2::real) ^ 53 - 1"
    by simp_all
  then have a: "0 \<le> (of_int n - 1 / 2) * u" and b: "0 \<le> (of_int n + 1 / 2) * u"
    using u by simp_all
  have lo: "(of_int n - 1 / 2) * u < sqrt y"
    using assms(1) a by (simp add: u_def real_less_rsqrt)
  have "0 \<le> y" using assms(1) by (smt (verit) zero_le_power2)
  then have hi: "sqrt y < (of_int n + 1 / 2) * u"
    using assms(2) b by (simp add: u_def real_less_lsqrt)
  have s: "0 \<le> sqrt y" using a lo by linarith
  have 1: "2 powi e \<le> \<bar>sqrt y\<bar>"
  proof -
    have "2 powi e = 2 ^ 52 * u" by (simp add: u_def power_int_diff)
    also have "\<dots> \<le> (of_int n - 1 / 2) * u"
      using n(1) u by (intro mult_right_mono) simp_all
    finally show ?thesis using lo s by simp
  qed
  have 2: "\<bar>sqrt y\<bar> < 2 powi (e + 1)"
  proof -
    have "(of_int n + 1 / 2) * u \<le> 2 ^ 53 * u"
      using n(2) u by (intro mult_right_mono) simp_all
    also have "\<dots> = 2 powi (e + 1)" by (simp add: u_def power_int_diff power_int_add)
    finally show ?thesis using hi s by simp
  qed
  have "of_int n - 1 / 2 < sqrt y / u" "sqrt y / u < of_int n + 1 / 2"
    using lo hi u by (simp_all add: field_simps)
  then have 3: "\<bar>sqrt y / 2 powi (e - 52) - of_int n\<bar> < 1 / 2"
    unfolding u_def by linarith
  from double_near [OF 1 2 3] show ?thesis .
qed

lemma double_abs_lower: "\<bar>x\<bar> * (1 - 1 / 2 ^ 53) \<le> \<bar>double x\<bar>"
proof -
  have "\<bar>x\<bar> - \<bar>double x\<bar> \<le> \<bar>double x - x\<bar>" by linarith
  with double_error [of x] have "\<bar>x\<bar> - \<bar>x\<bar> / 2 ^ 53 \<le> \<bar>double x\<bar>" by linarith
  then show ?thesis by (simp add: algebra_simps)
qed

lemma double_lower:
  assumes "0 \<le> x"
  shows "x * (1 - 1 / 2 ^ 53) \<le> double x"
proof -
  have "x - double x \<le> \<bar>double x - x\<bar>" by linarith
  with double_error [of x] assms have "x - x / 2 ^ 53 \<le> double x" by simp
  then show ?thesis by (simp add: algebra_simps)
qed

lemma sqrt_times_fourth: "sqrt (x * (c ^ 2)\<^sup>2) = sqrt x * c ^ 2"
proof -
  have "sqrt ((c ^ 2)\<^sup>2) = c ^ 2"
    by (simp only: real_sqrt_abs abs_power2)
  then show ?thesis
    by (simp only: real_sqrt_mult)
qed

lemma double_nonneg: "0 \<le> x \<Longrightarrow> 0 \<le> double x"
proof -
  assume a: "0 \<le> x"
  then have "0 \<le> x * (1 - 1 / 2 ^ 53)" by simp
  with double_lower [OF a] show ?thesis by linarith
qed

lemma double_square_lower:
  "(a * a) * (1 - 1 / 2 ^ 53) ^ 3 \<le> double (double a * double a)"
proof -
  let ?q = "1 - 1 / 2 ^ 53 :: real"
  have q: "0 \<le> ?q" by simp
  have "(\<bar>a\<bar> * ?q)\<^sup>2 \<le> \<bar>double a\<bar>\<^sup>2"
    using double_abs_lower [of a] q by (intro power_mono) simp_all
  then have "(a * a) * ?q ^ 2 \<le> double a * double a"
    by (simp add: power2_eq_square algebra_simps)
  then have "((a * a) * ?q ^ 2) * ?q \<le> (double a * double a) * ?q"
    using q by (intro mult_right_mono)
  also have "\<dots> \<le> double (double a * double a)"
    by (intro double_lower) simp
  finally show ?thesis
    by (simp add: power3_eq_cube power2_eq_square algebra_simps)
qed

lemma computed_distance_lower:
  "sqrt (a * a + b * b) * (1 - 1 / 2 ^ 53) ^ 3
     \<le> double (sqrt (double (double (double a * double a) + double (double b * double b))))"
proof -
  let ?q = "1 - 1 / 2 ^ 53 :: real"
  let ?sx = "double (double a * double a)" and ?sy = "double (double b * double b)"
  have q: "0 \<le> ?q" by simp
  have sx: "0 \<le> ?sx" and sy: "0 \<le> ?sy"
    by (intro double_nonneg, simp)+
  have "(a * a + b * b) * ?q ^ 3 \<le> ?sx + ?sy"
    using double_square_lower [of a] double_square_lower [of b] by (simp add: algebra_simps)
  then have "((a * a + b * b) * ?q ^ 3) * ?q \<le> (?sx + ?sy) * ?q"
    using q by (intro mult_right_mono)
  also have "\<dots> \<le> double (?sx + ?sy)"
    using sx sy by (intro double_lower) simp
  finally have "(a * a + b * b) * (?q ^ 2)\<^sup>2 \<le> double (?sx + ?sy)"
    by (simp add: power3_eq_cube power2_eq_square algebra_simps)
  then have "sqrt ((a * a + b * b) * (?q ^ 2)\<^sup>2) \<le> sqrt (double (?sx + ?sy))"
    by (simp only: real_sqrt_le_iff)
  then have "sqrt (a * a + b * b) * ?q ^ 2 \<le> sqrt (double (?sx + ?sy))"
    by (simp only: sqrt_times_fourth)
  then have "(sqrt (a * a + b * b) * ?q ^ 2) * ?q \<le> sqrt (double (?sx + ?sy)) * ?q"
    using q by (intro mult_right_mono)
  also have "\<dots> \<le> double (sqrt (double (?sx + ?sy)))"
    using sx sy by (intro double_lower) (simp add: double_nonneg)
  finally show ?thesis
    by (simp add: power3_eq_cube power2_eq_square algebra_simps)
qed

lemma computed_distance_bound:
  assumes "double (sqrt (double (double (double a * double a) + double (double b * double b))))
             < double (1 / 10)"
  shows "sqrt (a * a + b * b) < 1 / 10 + 1 / 10 ^ 16"
proof -
  let ?q = "1 - 1 / 2 ^ 53 :: real"
  from computed_distance_lower [of a b] assms
  have "sqrt (a * a + b * b) * ?q ^ 3 < 3602879701896397 / 36028797018963968"
    by (simp add: double_tenth)
  moreover have "(0::real) < ?q ^ 3" by simp
  ultimately have "sqrt (a * a + b * b) < (3602879701896397 / 36028797018963968) / ?q ^ 3"
    by (simp add: pos_less_divide_eq)
  also have "\<dots> < 1 / 10 + 1 / 10 ^ 16"
    by (simp add: power3_eq_cube)
  finally show ?thesis .
qed

subsection \<open>Evaluating the examples\<close>

lemma sqrt_256th: "sqrt (1 / 256) = 1 / 16"
  by (rule real_sqrt_unique) (simp_all add: power2_eq_square)

lemmas worker_eval =
  CaptureWorker_init_def quiet_frame_def person_frame_def
  person_at_def coco_def captureFrame_def processAIDetection_def detectorLoaded_def
  updateTracks_def Let_def AI_PROCESS_INTERVAL_def trackedClasses_def assignDetection_def
  MAX_TRACK_DISTANCE_def double_tenth qmap_at_def qmap_contains_def qset_insert_def TrackState_init_def
  updateRoiStatus_def pointInRoi_def checkLoitering_def checkLineCrossing_def
  QPointF_eq_def qFuzzyCompare_def qFuzzyIsNull_def computeSideOfLine_def
  getCrossingDirection_def LINE_EPSILON_def TRIPWIRE_ALERT_DEBOUNCE_MS_def
  cleanupStaleTracks_def staleKeys_def qmap_remove_def TRACK_TIMEOUT_MS_def QPointF_null_def
  LOITERING_THRESHOLD_MS_def processMotionDetection_def processRoiMotion_def
  processTripwire_def threshold_def sqrt_256th double_0 double_dyadic

lemma ai_only_run:
  "EmittedAt 100330 (trackCrossedTripwire 1 ''person'' ''right to left'')
     \<in> set (snd (run CaptureWorker_init ai_only_inputs))"
  by (simp add: ai_only_inputs_def worker_eval)

subsection \<open>Motion disabled\<close>

lemma updateTracks_motionEnabled:
  "m_motionEnabled (fst (updateTracks w dets fw fh now)) = m_motionEnabled w"
  by (simp add: updateTracks_def Let_def case_prod_beta)

lemma processAIDetection_motionEnabled:
  "m_motionEnabled (fst (processAIDetection w f)) = m_motionEnabled w"
  by (simp add: processAIDetection_def Let_def case_prod_beta updateTracks_motionEnabled
      split: option.splits)

lemma captureFrame_motion_disabled:
  "\<not> m_motionEnabled w \<Longrightarrow> \<not> m_motionEnabled (fst (captureFrame w f))"
  by (simp add: captureFrame_def Let_def case_prod_beta processAIDetection_motionEnabled)

lemma step_motion_disabled:
  "\<not> m_motionEnabled w \<Longrightarrow> i \<noteq> SetMotionEnabled True \<Longrightarrow> \<not> m_motionEnabled (fst (step w i))"
  by (cases i) (auto simp: captureFrame_motion_disabled)

text \<open>
  C2, as stated, fails: with motion detection never enabled, the tracker still emits a
  tripwire event (trackCrossedTripwire) once AI detection is on and a tripwire is set.
\<close>

theorem C2_tripwire_while_motion_disabled:
  "\<not> m_motionEnabled CaptureWorker_init \<and>
   SetMotionEnabled True \<notin> set ai_only_inputs \<and>
   EmittedAt 100330 (trackCrossedTripwire 1 ''person'' ''right to left'')
     \<in> set (snd (run CaptureWorker_init ai_only_inputs))"
  by (simp add: ai_only_inputs_def worker_eval)

text \<open>
  C2, amended: while motion detection is disabled (from a worker with
  \<^verbatim>\<open>m_motionEnabled\<close> false, through any inputs that do not enable it), no signal of
  the motion path is emitted: no motionDetected, no roiMotionDetected, no
  tripwireCrossed (the mask-centroid tripwire).
\<close>

theorem C2_motion_disabled_run:
  assumes "\<not> m_motionEnabled w" and "SetMotionEnabled True \<notin> set ins"
    and "e \<in> set (snd (run w ins))"
  shows "\<not> motion_path_signal (signal_of e)"
  using assms
proof (induction ins arbitrary: w)
  case Nil
  then show ?case by simp
next
  case (Cons i ins)
  from Cons.prems(3) consider
    (now) "e \<in> set (snd (step w i))" | (later) "e \<in> set (snd (run (fst (step w i)) ins))"
    unfolding run_Cons_snd by blast
  then show ?case
  proof cases
    case now
    from step_emits [OF this] Cons.prems(1) show ?thesis by auto
  next
    case later
    have "\<not> m_motionEnabled (fst (step w i))"
      using Cons.prems(1,2) by (intro step_motion_disabled) auto
    with Cons.IH later Cons.prems(2) show ?thesis by simp
  qed
qed

theorem C2_motion_disabled_run_witness:
  "\<not> m_motionEnabled CaptureWorker_init \<and>
   SetMotionEnabled True \<notin> set ai_only_inputs \<and>
   EmittedAt 100330 (trackCrossedTripwire 1 ''person'' ''right to left'')
     \<in> set (snd (run CaptureWorker_init ai_only_inputs)) \<and>
   \<not> motion_path_signal
       (signal_of (EmittedAt 100330 (trackCrossedTripwire 1 ''person'' ''right to left'')))"
proof -
  have a: "\<not> m_motionEnabled CaptureWorker_init"
    by (simp add: CaptureWorker_init_def)
  have b: "SetMotionEnabled True \<notin> set ai_only_inputs"
    by (simp add: ai_only_inputs_def)
  show ?thesis
    using a b ai_only_run C2_motion_disabled_run [OF a b ai_only_run] by simp
qed

subsection \<open>The motion threshold\<close>




subsection \<open>The direction of a crossing\<close>

text \<open>
  C10: every trackCrossedTripwire signal a worker emits, from any state and through any
  inputs, carries the direction "left to right" or "right to left"; under the firing
  condition of checkLineCrossing, getCrossingDirection never returns "unknown".
\<close>

theorem C10_direction:
  "(e \<in> set (snd (run w ins)) \<longrightarrow> signal_of e = trackCrossedTripwire k l d \<longrightarrow>
      d = ''left to right'' \<or> d = ''right to left'') \<and>
   (\<bar>prevSide\<bar> > LINE_EPSILON \<and> \<bar>currSide\<bar> > LINE_EPSILON \<and> prevSide * currSide < 0 \<longrightarrow>
      getCrossingDirection prevSide currSide \<noteq> ''unknown'')"
proof
  show "e \<in> set (snd (run w ins)) \<longrightarrow> signal_of e = trackCrossedTripwire k l d \<longrightarrow>
      d = ''left to right'' \<or> d = ''right to left''"
  proof (intro impI)
    assume "e \<in> set (snd (run w ins))" and s: "signal_of e = trackCrossedTripwire k l d"
    then obtain w' i where "e \<in> set (snd (step w' i))"
      using run_emits_step by blast
    from step_emits [OF this] s show "d = ''left to right'' \<or> d = ''right to left''"
      by auto
  qed
next
  show "\<bar>prevSide\<bar> > LINE_EPSILON \<and> \<bar>currSide\<bar> > LINE_EPSILON \<and> prevSide * currSide < 0 \<longrightarrow>
      getCrossingDirection prevSide currSide \<noteq> ''unknown''"
    by (auto simp: getCrossingDirection_def mult_less_0_iff)
qed

theorem C10_direction_witness:
  "EmittedAt 100330 (trackCrossedTripwire 1 ''person'' ''right to left'')
     \<in> set (snd (run CaptureWorker_init ai_only_inputs)) \<and>
   signal_of (EmittedAt 100330 (trackCrossedTripwire 1 ''person'' ''right to left''))
     = trackCrossedTripwire 1 ''person'' ''right to left'' \<and>
   \<bar>1 / 32 :: real\<bar> > LINE_EPSILON \<and> \<bar>- (1 / 32) :: real\<bar> > LINE_EPSILON \<and>
   (1 / 32 :: real) * (- (1 / 32)) < 0 \<and>
   getCrossingDirection (1 / 32) (- (1 / 32)) \<noteq> ''unknown''"
  using ai_only_run
    C10_direction [of "EmittedAt 100330 (trackCrossedTripwire 1 ''person'' ''right to left'')"
      CaptureWorker_init ai_only_inputs 1 "''person''" "''right to left''" "1 / 32" "- (1 / 32)"]
  by (simp add: LINE_EPSILON_def)

subsection \<open>CSV export\<close>

lemma set_replace_quotes: "set (replace_quotes f) = set f"
  by (induction f) (auto simp: replace_quotes_def)

lemma replace_quotes_plain: "CHR 0x22 \<notin> set f \<Longrightarrow> replace_quotes f = f"
  by (induction f) (auto simp: replace_quotes_def)

lemma read_unquoted:
  assumes "CHR '','' \<notin> set f" "CHR 0x22 \<notin> set f" "CHR 0x0A \<notin> set f"
    and "d = CHR '','' \<or> d = CHR 0x0A"
  shows "csv_read Unquoted cur row (f @ d # rest) = after_field d (row @ [cur @ f]) rest"
  using assms
  by (induction f arbitrary: cur) (auto simp: after_field_def)

lemma read_quoted:
  assumes "d = CHR '','' \<or> d = CHR 0x0A"
  shows "csv_read Quoted cur row (replace_quotes f @ CHR 0x22 # d # rest)
         = after_field d (row @ [cur @ f]) rest"
  using assms
proof (induction f arbitrary: cur)
  case Nil
  then show ?case by (auto simp: replace_quotes_def after_field_def)
next
  case (Cons c f)
  have r: "replace_quotes (c # f) = (if c = CHR 0x22 then [CHR 0x22, CHR 0x22] else [c]) @ replace_quotes f"
    by (simp add: replace_quotes_def)
  show ?case
    using Cons.IH [OF Cons.prems, of "cur @ [c]"] by (auto simp: r)
qed

lemma read_field:
  assumes "d = CHR '','' \<or> d = CHR 0x0A"
  shows "csv_read FieldStart [] row (escape f @ d # rest) = after_field d (row @ [f]) rest"
proof (cases "CHR '','' \<in> set f \<or> CHR 0x22 \<in> set f \<or> CHR 0x0A \<in> set f")
  case True
  then have "escape f = CHR 0x22 # replace_quotes f @ [CHR 0x22]"
    by (simp add: escape_def Let_def set_replace_quotes)
  then show ?thesis
    using read_quoted [OF assms, of "[]" row f rest] by simp
next
  case False
  then have e: "escape f = f"
    by (simp add: escape_def Let_def set_replace_quotes replace_quotes_plain)
  show ?thesis
  proof (cases f)
    case Nil
    with e assms show ?thesis by (auto simp: after_field_def)
  next
    case (Cons c f')
    with False have "csv_read FieldStart [] row (f @ d # rest) = csv_read Unquoted [c] row (f' @ d # rest)"
      by auto
    also have "\<dots> = after_field d (row @ [[c] @ f']) rest"
      using False Cons by (intro read_unquoted assms) auto
    finally show ?thesis using e Cons by simp
  qed
qed

lemma read_row:
  "csv_read FieldStart [] [] (csv_row isoDate a @ rest)
   = alert_fields isoDate a # csv_read FieldStart [] [] rest"
  by (simp add: csv_row_def alert_fields_def read_field after_field_def)

lemma read_rows:
  "csv_read FieldStart [] [] (concat (map (csv_row isoDate) alerts))
   = map (alert_fields isoDate) alerts"
proof (induction alerts)
  case Nil
  then show ?case by simp
next
  case (Cons a alerts)
  then show ?case by (simp add: read_row)
qed

lemma read_header:
  "csv_read FieldStart [] [] (csv_header @ rest)
   = [''ID'', ''Timestamp'', ''Camera Name'', ''Type'', ''Message'', ''Snapshot Path'']
       # csv_read FieldStart [] [] rest"
  by (simp add: csv_header_def)

lemma exportAlertsToCsv_parse:
  assumes "exportAlertsToCsv isoDate dirExists mkpathOk openOk alerts = Some written"
  shows "csv_parse written
        = [''ID'', ''Timestamp'', ''Camera Name'', ''Type'', ''Message'', ''Snapshot Path'']
            # map (alert_fields isoDate) alerts"
proof -
  from assms have "written = csv_text isoDate alerts"
    by (simp add: exportAlertsToCsv_def split: if_splits)
  then show ?thesis
    unfolding csv_parse_def csv_text_def by (simp only: read_header read_rows)
qed

text \<open>
  C8: when the directory and the file can be had, exportAlertsToCsv writes the header
  row \<^verbatim>\<open>ID,Timestamp,Camera Name,Type,Message,Snapshot Path\<close> and then one row for every
  alert, and writes nothing otherwise; a field with a comma, a double quote or a
  newline is written between double quotes with every quote doubled, any other field
  as it is; reading the written text back gives the header and, for every alert, its
  six fields; and so two exports that write the same text were given the same fields.
\<close>

theorem C8_csv:
  "exportAlertsToCsv isoDate dirExists mkpathOk openOk alerts =
     (if (dirExists \<or> mkpathOk) \<and> openOk
      then Some (''ID,Timestamp,Camera Name,Type,Message,Snapshot Path'' @ [CHR 0x0A]
                   @ concat (map (csv_row isoDate) alerts))
      else None) \<and>
   escape field =
     (if CHR '','' \<in> set field \<or> CHR 0x22 \<in> set field \<or> CHR 0x0A \<in> set field
      then [CHR 0x22] @ replace_quotes field @ [CHR 0x22] else field) \<and>
   (exportAlertsToCsv isoDate dirExists mkpathOk openOk alerts = Some written \<longrightarrow>
      csv_parse written
        = [''ID'', ''Timestamp'', ''Camera Name'', ''Type'', ''Message'', ''Snapshot Path'']
            # map (alert_fields isoDate) alerts) \<and>
   (exportAlertsToCsv isoDate dirExists mkpathOk openOk alerts = Some written \<and>
    exportAlertsToCsv isoDate' dirExists' mkpathOk' openOk' alerts' = Some written \<longrightarrow>
      map (alert_fields isoDate) alerts = map (alert_fields isoDate') alerts')"
proof -
  have A: "exportAlertsToCsv isoDate dirExists mkpathOk openOk alerts =
     (if (dirExists \<or> mkpathOk) \<and> openOk
      then Some (''ID,Timestamp,Camera Name,Type,Message,Snapshot Path'' @ [CHR 0x0A]
                   @ concat (map (csv_row isoDate) alerts))
      else None)"
    by (simp add: exportAlertsToCsv_def csv_text_def csv_header_def)
  have B: "escape field =
     (if CHR '','' \<in> set field \<or> CHR 0x22 \<in> set field \<or> CHR 0x0A \<in> set field
      then [CHR 0x22] @ replace_quotes field @ [CHR 0x22] else field)"
    by (auto simp: escape_def Let_def set_replace_quotes replace_quotes_plain)
  have C: "exportAlertsToCsv isoDate dirExists mkpathOk openOk alerts = Some written \<longrightarrow>
      csv_parse written
        = [''ID'', ''Timestamp'', ''Camera Name'', ''Type'', ''Message'', ''Snapshot Path'']
            # map (alert_fields isoDate) alerts"
    by (rule impI) (rule exportAlertsToCsv_parse)
  have D: "exportAlertsToCsv isoDate dirExists mkpathOk openOk alerts = Some written \<and>
    exportAlertsToCsv isoDate' dirExists' mkpathOk' openOk' alerts' = Some written \<longrightarrow>
      map (alert_fields isoDate) alerts = map (alert_fields isoDate') alerts'"
  proof
    assume a: "exportAlertsToCsv isoDate dirExists mkpathOk openOk alerts = Some written \<and>
      exportAlertsToCsv isoDate' dirExists' mkpathOk' openOk' alerts' = Some written"
    from exportAlertsToCsv_parse [OF a [THEN conjunct1]]
      exportAlertsToCsv_parse [OF a [THEN conjunct2]]
    show "map (alert_fields isoDate) alerts = map (alert_fields isoDate') alerts'"
      by simp
  qed
  from A B C D show ?thesis by blast
qed

theorem C8_csv_witness:
  "exportAlertsToCsv (\<lambda>t. t) True False True [example_alert] =
     Some (''ID,Timestamp,Camera Name,Type,Message,Snapshot Path'' @ [CHR 0x0A] @
           ''20250101120000000,2025-01-01T12:00:00,Front Door,motion,'' @
           [CHR 0x22] @ ''He said, '' @ [CHR 0x22, CHR 0x22] @ ''hi'' @ [CHR 0x22, CHR 0x22, CHR 0x0A]
             @ ''OK'' @ [CHR 0x22] @ '','' @ [CHR 0x0A]) \<and>
   exportAlertsToCsv (\<lambda>t. t) False False True [example_alert] = None \<and>
   exportAlertsToCsv (\<lambda>t. t) False True True [example_alert] =
     exportAlertsToCsv (\<lambda>t. t) True False True [example_alert] \<and>
   map (alert_fields (\<lambda>t. t)) [example_alert] =
     [[''20250101120000000'', ''2025-01-01T12:00:00'', ''Front Door'', ''motion'',
       quoted_message, []]] \<and>
   CHR '','' \<in> set quoted_message \<and>
   escape quoted_message
     = [CHR 0x22] @ ''He said, '' @ [CHR 0x22, CHR 0x22] @ ''hi'' @ [CHR 0x22, CHR 0x22, CHR 0x0A]
         @ ''OK'' @ [CHR 0x22] \<and>
   escape ''Front Door'' = ''Front Door'' \<and>
   csv_parse (the (exportAlertsToCsv (\<lambda>t. t) True False True [example_alert]))
     = [[''ID'', ''Timestamp'', ''Camera Name'', ''Type'', ''Message'', ''Snapshot Path''],
        [''20250101120000000'', ''2025-01-01T12:00:00'', ''Front Door'', ''motion'',
         quoted_message, []]]"
proof -
  let ?out = "the (exportAlertsToCsv (\<lambda>t. t) True False True [example_alert])"
  note t = C8_csv [of "\<lambda>t. t" True False True "[example_alert]" quoted_message ?out
      "\<lambda>t. t" True False True "[example_alert]"]
  note u = C8_csv [of "\<lambda>t. t" False False True "[example_alert]" "''Front Door''" ?out
      "\<lambda>t. t" True False True "[example_alert]"]
  have s: "exportAlertsToCsv (\<lambda>t. t) True False True [example_alert] = Some ?out"
    using t [THEN conjunct1] by simp
  have a: "CHR '','' \<in> set quoted_message"
    by (simp add: quoted_message_def)
  have r: "replace_quotes quoted_message =
      ''He said, '' @ [CHR 0x22, CHR 0x22] @ ''hi'' @ [CHR 0x22, CHR 0x22, CHR 0x0A] @ ''OK''"
    by (simp add: replace_quotes_def quoted_message_def)
  from t [THEN conjunct2, THEN conjunct1] a
  have b: "escape quoted_message = [CHR 0x22] @ replace_quotes quoted_message @ [CHR 0x22]"
    by simp
  from u [THEN conjunct2, THEN conjunct1]
  have c: "escape ''Front Door'' = ''Front Door''"
    by simp
  have e: "escape ''20250101120000000'' = ''20250101120000000''"
    "escape ''2025-01-01T12:00:00'' = ''2025-01-01T12:00:00''"
    "escape ''motion'' = ''motion''" "escape [] = []"
    by (simp_all add: escape_def replace_quotes_def)
  from t [THEN conjunct1]
  have 1: "exportAlertsToCsv (\<lambda>t. t) True False True [example_alert] =
     Some (''ID,Timestamp,Camera Name,Type,Message,Snapshot Path'' @ [CHR 0x0A] @
           ''20250101120000000,2025-01-01T12:00:00,Front Door,motion,'' @
           [CHR 0x22] @ ''He said, '' @ [CHR 0x22, CHR 0x22] @ ''hi'' @ [CHR 0x22, CHR 0x22, CHR 0x0A]
             @ ''OK'' @ [CHR 0x22] @ '','' @ [CHR 0x0A])"
    by (simp add: csv_row_def example_alert_def b c e r)
  from u [THEN conjunct1]
  have 2: "exportAlertsToCsv (\<lambda>t. t) False False True [example_alert] = None"
    by simp
  from t [THEN conjunct2, THEN conjunct2, THEN conjunct1] s
  have 3: "csv_parse ?out
     = [[''ID'', ''Timestamp'', ''Camera Name'', ''Type'', ''Message'', ''Snapshot Path''],
        [''20250101120000000'', ''2025-01-01T12:00:00'', ''Front Door'', ''motion'',
         quoted_message, []]]"
    by (simp add: alert_fields_def example_alert_def)
  from b have b': "escape quoted_message
     = [CHR 0x22] @ ''He said, '' @ [CHR 0x22, CHR 0x22] @ ''hi'' @ [CHR 0x22, CHR 0x22, CHR 0x0A]
         @ ''OK'' @ [CHR 0x22]"
    by (simp add: r)
  note v = C8_csv [of "\<lambda>t. t" False True True "[example_alert]" quoted_message ?out
      "\<lambda>t. t" True False True "[example_alert]"]
  from v [THEN conjunct1] t [THEN conjunct1]
  have 4: "exportAlertsToCsv (\<lambda>t. t) False True True [example_alert] =
     exportAlertsToCsv (\<lambda>t. t) True False True [example_alert]"
    by simp
  have s': "exportAlertsToCsv (\<lambda>t. t) False True True [example_alert] = Some ?out"
    unfolding 4 by (rule s)
  from v [THEN conjunct2, THEN conjunct2, THEN conjunct2] s' s
  have "map (alert_fields (\<lambda>t. t)) [example_alert] = map (alert_fields (\<lambda>t. t)) [example_alert]"
    by blast
  then have 5: "map (alert_fields (\<lambda>t. t)) [example_alert] =
     [[''20250101120000000'', ''2025-01-01T12:00:00'', ''Front Door'', ''motion'',
       quoted_message, []]]"
    by (simp add: alert_fields_def example_alert_def)
  from 1 2 4 5 a b' c 3 show ?thesis
    by blast
qed

subsection \<open>Configuration fallback\<close>

lemma loadConfiguration_fails:
  "\<not> fst (loadConfiguration numberText file []) \<Longrightarrow> snd (loadConfiguration numberText file []) = []"
  by (auto simp: loadConfiguration_def Let_def split: config_file.splits option.splits json.splits)

lemma createCameraStreams_default:
  "createCameraStreams [defaultConfig] =
     [Some \<lparr>stream_id = ''cam1'', stream_source = ''0'', stream_sourceType = ''usb'',
            stream_name = ''Default Camera'', stream_roi = None, stream_tripwire = None\<rparr>,
      None, None, None]"
  by (simp add: createCameraStreams_def createCameraStream_def defaultConfig_def upt_rec)

lemma loadCameras_take:
  "length configs < 4 \<Longrightarrow>
   loadCameras numberText configs vs =
     configs @ map (parseCamera numberText) (take (4 - length configs) vs)"
proof (induction vs arbitrary: configs)
  case Nil
  then show ?case by simp
next
  case (Cons v vs)
  show ?case
  proof (cases "length configs = 3")
    case True
    then show ?thesis by (simp add: Let_def)
  next
    case False
    with Cons.prems have l: "length (configs @ [parseCamera numberText v]) < 4" by simp
    from Cons.prems have t: "4 - length configs = Suc (3 - length configs)" by simp
    from Cons.IH [OF l] False Cons.prems show ?thesis
      by (simp add: Let_def t)
  qed
qed

text \<open>
  C9, as stated, fails: a file that is a JSON object whose \<^verbatim>\<open>cameras\<close> array holds a
  number is malformed, and yet it is loaded. The manager then holds one configuration
  with empty id, name, type and source that is not enabled; the default camera is not
  used and no stream is created.
\<close>

theorem C9_ill_typed_camera:
  "CameraManager_init (\<lambda>x. []) (Document (Some (JObject [(''cameras'', JArray [JNumber 1])]))) =
     \<lparr>m_configs =
        [\<lparr>id_c = [], name = [], type_c = [], source = [], enabled = False, roiPoints = [],
          tripwireStart = QPointF_null, tripwireEnd = QPointF_null, hasRoi = False,
          hasTripwire = False\<rparr>],
      m_cameras = [None, None, None, None]\<rparr>"
  by (simp add: CameraManager_init_def loadConfiguration_def parseCamera_def jvalue_def
      jcontains_def createCameraStreams_def Let_def upt_rec)

text \<open>
  C9, amended: when loadConfiguration finds no camera entry, that is when the file
  cannot be opened, is not JSON, is not a JSON object, or is an object whose member
  \<^verbatim>\<open>cameras\<close> is missing, is not an array or is an empty array, the manager holds
  exactly one configuration, the default camera (id cam1, name Default Camera, type
  usb, source 0, enabled, no ROI, no tripwire), and creates its stream in slot 0 with
  no polygon and no tripwire. An object with a non-empty \<^verbatim>\<open>cameras\<close> array is loaded
  as it is: its first four entries are converted one by one, a missing or ill-typed
  member reading as the empty string, false or zero, and the default camera is not
  used. The constructor has no failing exit, so the model returns a manager in every
  case.
\<close>

theorem C9_fallback:
  "((file = CannotOpen \<or> file = Document None \<or>
     (\<exists>j. file = Document (Some j) \<and> \<not> isObject j) \<or>
     (\<exists>rootObj. file = Document (Some (JObject rootObj)) \<and>
                toArray (jvalue rootObj ''cameras'') = [])) \<longrightarrow>
    CameraManager_init numberText file =
      \<lparr>m_configs =
         [\<lparr>id_c = ''cam1'', name = ''Default Camera'', type_c = ''usb'', source = ''0'',
           enabled = True, roiPoints = [], tripwireStart = QPointF_null,
           tripwireEnd = QPointF_null, hasRoi = False, hasTripwire = False\<rparr>],
       m_cameras =
         [Some \<lparr>stream_id = ''cam1'', stream_source = ''0'', stream_sourceType = ''usb'',
                stream_name = ''Default Camera'', stream_roi = None, stream_tripwire = None\<rparr>,
          None, None, None]\<rparr>) \<and>
   (\<forall>rootObj. file = Document (Some (JObject rootObj)) \<and>
        toArray (jvalue rootObj ''cameras'') \<noteq> [] \<longrightarrow>
      CameraManager_init numberText file =
        \<lparr>m_configs =
           map (parseCamera numberText) (take 4 (toArray (jvalue rootObj ''cameras''))),
         m_cameras =
           createCameraStreams
             (map (parseCamera numberText) (take 4 (toArray (jvalue rootObj ''cameras''))))\<rparr>)"
proof (intro conjI impI allI)
  assume "file = CannotOpen \<or> file = Document None \<or>
     (\<exists>j. file = Document (Some j) \<and> \<not> isObject j) \<or>
     (\<exists>rootObj. file = Document (Some (JObject rootObj)) \<and>
                toArray (jvalue rootObj ''cameras'') = [])"
  then have "loadConfiguration numberText file [] = (False, [])"
    by (auto simp: loadConfiguration_def split: json.splits)
  then have "CameraManager_init numberText file =
      \<lparr>m_configs = [defaultConfig], m_cameras = createCameraStreams [defaultConfig]\<rparr>"
    by (simp add: CameraManager_init_def Let_def)
  then show "CameraManager_init numberText file =
      \<lparr>m_configs =
         [\<lparr>id_c = ''cam1'', name = ''Default Camera'', type_c = ''usb'', source = ''0'',
           enabled = True, roiPoints = [], tripwireStart = QPointF_null,
           tripwireEnd = QPointF_null, hasRoi = False, hasTripwire = False\<rparr>],
       m_cameras =
         [Some \<lparr>stream_id = ''cam1'', stream_source = ''0'', stream_sourceType = ''usb'',
                stream_name = ''Default Camera'', stream_roi = None, stream_tripwire = None\<rparr>,
          None, None, None]\<rparr>"
    by (simp add: createCameraStreams_default) (simp add: defaultConfig_def)
next
  fix rootObj
  assume a: "file = Document (Some (JObject rootObj)) \<and> toArray (jvalue rootObj ''cameras'') \<noteq> []"
  let ?cs = "map (parseCamera numberText) (take 4 (toArray (jvalue rootObj ''cameras'')))"
  from a have "?cs \<noteq> []" by (cases "toArray (jvalue rootObj ''cameras'')") simp_all
  with a have "loadConfiguration numberText file [] = (True, ?cs)"
    by (simp add: loadConfiguration_def Let_def loadCameras_take)
  then show "CameraManager_init numberText file =
      \<lparr>m_configs = ?cs, m_cameras = createCameraStreams ?cs\<rparr>"
    by (simp add: CameraManager_init_def Let_def)
qed

theorem C9_fallback_witness:
  "CameraManager_init (\<lambda>x. []) CannotOpen =
     \<lparr>m_configs = [defaultConfig],
      m_cameras =
        [Some \<lparr>stream_id = ''cam1'', stream_source = ''0'', stream_sourceType = ''usb'',
               stream_name = ''Default Camera'', stream_roi = None, stream_tripwire = None\<rparr>,
         None, None, None]\<rparr> \<and>
   m_configs (CameraManager_init (\<lambda>x. []) (Document None)) = [defaultConfig] \<and>
   \<not> isObject (JArray []) \<and>
   m_configs (CameraManager_init (\<lambda>x. []) (Document (Some (JArray [])))) = [defaultConfig] \<and>
   toArray (jvalue [] ''cameras'') = [] \<and>
   m_configs (CameraManager_init (\<lambda>x. []) (Document (Some (JObject [])))) = [defaultConfig] \<and>
   toArray (jvalue [(''cameras'', JString ''none'')] ''cameras'') = [] \<and>
   m_configs (CameraManager_init (\<lambda>x. [])
      (Document (Some (JObject [(''cameras'', JString ''none'')])))) = [defaultConfig] \<and>
   m_configs (CameraManager_init (\<lambda>x. []) front_door_file) =
     [\<lparr>id_c = ''front'', name = ''Front Door'', type_c = ''usb'', source = ''1'',
       enabled = True, roiPoints = [], tripwireStart = QPointF_null,
       tripwireEnd = QPointF_null, hasRoi = False, hasTripwire = False\<rparr>] \<and>
   m_cameras (CameraManager_init (\<lambda>x. []) front_door_file) =
     [Some \<lparr>stream_id = ''front'', stream_source = ''1'', stream_sourceType = ''usb'',
            stream_name = ''Front Door'', stream_roi = None, stream_tripwire = None\<rparr>,
      None, None, None]"
proof -
  note a = C9_fallback [of CannotOpen "\<lambda>x. []", THEN conjunct1]
  note b = C9_fallback [of "Document None" "\<lambda>x. []", THEN conjunct1]
  note c = C9_fallback [of "Document (Some (JArray []))" "\<lambda>x. []", THEN conjunct1]
  note d = C9_fallback [of "Document (Some (JObject []))" "\<lambda>x. []", THEN conjunct1]
  note e = C9_fallback [of "Document (Some (JObject [(''cameras'', JString ''none'')]))"
      "\<lambda>x. []", THEN conjunct1]
  note f = C9_fallback [of front_door_file "\<lambda>x. []", THEN conjunct2]
  have j: "toArray (jvalue [] ''cameras'') = []"
    "toArray (jvalue [(''cameras'', JString ''none'')] ''cameras'') = []"
    by (simp_all add: jvalue_def)
  have 1: "CameraManager_init (\<lambda>x. []) CannotOpen =
     \<lparr>m_configs = [defaultConfig],
      m_cameras =
        [Some \<lparr>stream_id = ''cam1'', stream_source = ''0'', stream_sourceType = ''usb'',
               stream_name = ''Default Camera'', stream_roi = None, stream_tripwire = None\<rparr>,
         None, None, None]\<rparr>"
    using a by (simp add: defaultConfig_def)
  have 2: "m_configs (CameraManager_init (\<lambda>x. []) (Document None)) = [defaultConfig]"
    using b by (simp add: defaultConfig_def)
  have 3: "m_configs (CameraManager_init (\<lambda>x. []) (Document (Some (JArray [])))) = [defaultConfig]"
    using c by (simp add: defaultConfig_def)
  have 4: "m_configs (CameraManager_init (\<lambda>x. []) (Document (Some (JObject [])))) = [defaultConfig]"
    using d j by (simp add: defaultConfig_def)
  have 5: "m_configs (CameraManager_init (\<lambda>x. [])
      (Document (Some (JObject [(''cameras'', JString ''none'')])))) = [defaultConfig]"
    using e j by (simp add: defaultConfig_def)
  have k: "toArray (jvalue [(''cameras'', JArray [JObject
       [(''id'', JString ''front''), (''name'', JString ''Front Door''), (''type'', JString ''usb''),
        (''source'', JString ''1''), (''enabled'', JBool True)]])] ''cameras'') \<noteq> []"
    by (simp add: jvalue_def)
  from f [unfolded front_door_file_def, rule_format, OF conjI [OF refl k]]
  have 6: "CameraManager_init (\<lambda>x. []) front_door_file =
     \<lparr>m_configs =
        [\<lparr>id_c = ''front'', name = ''Front Door'', type_c = ''usb'', source = ''1'',
          enabled = True, roiPoints = [], tripwireStart = QPointF_null,
          tripwireEnd = QPointF_null, hasRoi = False, hasTripwire = False\<rparr>],
      m_cameras =
        [Some \<lparr>stream_id = ''front'', stream_source = ''1'', stream_sourceType = ''usb'',
               stream_name = ''Front Door'', stream_roi = None, stream_tripwire = None\<rparr>,
         None, None, None]\<rparr>"
    by (simp add: front_door_file_def jvalue_def parseCamera_def jcontains_def Let_def
        createCameraStreams_def createCameraStream_def upt_rec)
  from 1 2 3 4 5 6 j show ?thesis by simp
qed

subsection \<open>The track map\<close>

lemma map_of_qmap_insert: "map_of (qmap_insert k v m) = (map_of m)(k \<mapsto> v)"
  by (induction m) (auto simp: fun_eq_iff)

lemma keys_qmap_insert: "set (map fst (qmap_insert k v m)) = insert k (set (map fst m))"
proof (induction m)
  case Nil
  then show ?case by simp
next
  case (Cons kv m)
  obtain k' v' where kv: "kv = (k', v')" by (cases kv)
  from Cons show ?case
    unfolding kv by (cases "k < k'"; cases "k = k'") (simp_all add: insert_commute)
qed

lemma sorted_qmap_insert:
  "sorted_wrt (<) (map fst m) \<Longrightarrow> sorted_wrt (<) (map fst (qmap_insert k v m))"
proof (induction m)
  case Nil
  then show ?case by simp
next
  case (Cons kv m)
  obtain k' v' where kv: "kv = (k', v')" by (cases kv)
  from Cons.prems have s: "sorted_wrt (<) (map fst m)" and lt: "\<forall>x \<in> set (map fst m). k' < x"
    by (simp_all add: kv)
  consider "k < k'" | "k = k'" | "k' < k" by linarith
  then show ?case
  proof cases
    case 1
    with s lt show ?thesis by (auto simp: kv)
  next
    case 2
    with s lt show ?thesis by (simp add: kv)
  next
    case 3
    have "\<forall>x \<in> set (map fst (qmap_insert k v m)). k' < x"
      unfolding keys_qmap_insert using 3 lt by simp
    with 3 Cons.IH [OF s] show ?thesis by (simp add: kv)
  qed
qed

lemma set_qmap_insert:
  "sorted_wrt (<) (map fst m) \<Longrightarrow>
   set (qmap_insert k v m) = insert (k, v) {kv \<in> set m. fst kv \<noteq> k}"
proof (induction m)
  case Nil
  then show ?case by simp
next
  case (Cons kv m)
  obtain k' v' where kv: "kv = (k', v')" by (cases kv)
  from Cons.prems have s: "sorted_wrt (<) (map fst m)" and lt: "\<forall>x \<in> set m. k' < fst x"
    by (simp_all add: kv)
  consider "k < k'" | "k = k'" | "k' < k" by linarith
  then show ?case
  proof cases
    case 1
    with lt have "\<forall>x \<in> set m. fst x \<noteq> k" by auto
    with 1 show ?thesis by (auto simp: kv)
  next
    case 2
    with lt have "\<forall>x \<in> set m. fst x \<noteq> k" by auto
    with 2 show ?thesis by (auto simp: kv)
  next
    case 3
    with Cons.IH [OF s] show ?thesis by (auto simp: kv)
  qed
qed

lemma map_of_sorted_iff:
  fixes m :: tracks
  shows "sorted_wrt (<) (map fst m) \<Longrightarrow> (map_of m k = Some v) = ((k, v) \<in> set m)"
  using strict_sorted_iff [of "map fst m"] by simp

lemma map_of_mem: "(k, v) \<in> set m \<Longrightarrow> map_of m k \<noteq> None"
  by (metis map_of_eq_None_iff fst_conv image_eqI)

lemma map_of_Some_mem: "map_of m k = Some v \<Longrightarrow> (k, v) \<in> set m"
  by (rule map_of_SomeD)

lemma closestTrack_result:
  "closestTrack c m (b, bd) = (r, rd) \<Longrightarrow>
     rd \<le> bd \<and> (\<forall>kv \<in> set m. rd \<le> trackDistance c (snd kv)) \<and>
     ((r = b \<and> rd = bd) \<or> (\<exists>t. (r, t) \<in> set m \<and> trackDistance c t = rd \<and> rd < bd))"
proof (induction m arbitrary: b bd)
  case Nil
  then show ?case by simp
next
  case (Cons kv m)
  obtain k t where kv: "kv = (k, t)" by (cases kv)
  show ?case
  proof (cases "trackDistance c t < bd")
    case True
    with Cons.prems have "closestTrack c m (k, trackDistance c t) = (r, rd)"
      by (simp add: kv trackDistance_def Let_def)
    from Cons.IH [OF this] True show ?thesis
      by (auto simp: kv)
  next
    case False
    with Cons.prems have "closestTrack c m (b, bd) = (r, rd)"
      by (simp add: kv trackDistance_def Let_def)
    from Cons.IH [OF this] False show ?thesis
      by (auto simp: kv)
  qed
qed

lemma closestTrack_none:
  "\<forall>kv \<in> set m. trackDistance c (snd kv) \<ge> bd \<Longrightarrow> closestTrack c m (b, bd) = (b, bd)"
  by (induction m) (auto simp: trackDistance_def Let_def)

lemma set_fold_qmap_remove:
  "set (fold qmap_remove ks m) = {kv \<in> set m. fst kv \<notin> set ks}"
  by (induction ks arbitrary: m) (auto simp: qmap_remove_def)

lemma cleanupStaleTracks_mem:
  assumes "kv \<in> set (cleanupStaleTracks now m)"
  shows "kv \<in> set m \<and> now - lastSeenMs (snd kv) \<le> TRACK_TIMEOUT_MS"
proof -
  from assms have m: "kv \<in> set m" and k: "fst kv \<notin> set (staleKeys now m)"
    by (simp_all add: cleanupStaleTracks_def set_fold_qmap_remove)
  have "\<not> now - lastSeenMs (snd kv) > TRACK_TIMEOUT_MS"
  proof
    assume "now - lastSeenMs (snd kv) > TRACK_TIMEOUT_MS"
    with m have "kv \<in> set (filter (\<lambda>kv. now - lastSeenMs (snd kv) > TRACK_TIMEOUT_MS) m)"
      by simp
    then have "fst kv \<in> set (staleKeys now m)"
      unfolding staleKeys_def by (metis image_eqI set_map)
    with k show False by contradiction
  qed
  with m show ?thesis by simp
qed

lemma cleanupStaleTracks_sorted:
  "sorted_wrt (<) (map fst m) \<Longrightarrow> sorted_wrt (<) (map fst (cleanupStaleTracks now m))"
proof -
  have "sorted_wrt (<) (map fst m) \<Longrightarrow> sorted_wrt (<) (map fst (fold qmap_remove ks m))" for ks
  proof (induction ks arbitrary: m)
    case Nil
    then show ?case by simp
  next
    case (Cons k ks)
    have "sorted_wrt (<) (map fst (qmap_remove k m))"
      using Cons.prems unfolding qmap_remove_def sorted_wrt_map by (rule sorted_wrt_filter)
    from Cons.IH [OF this] show ?case by simp
  qed
  then show "sorted_wrt (<) (map fst m) \<Longrightarrow> sorted_wrt (<) (map fst (cleanupStaleTracks now m))"
    by (simp add: cleanupStaleTracks_def)
qed

subsection \<open>One step of the assignment\<close>

lemma tracks_inv_update:
  assumes "tracks_inv m n" and "map_of m k = Some t" and "idT v = k"
  shows "tracks_inv (qmap_insert k v m) n"
proof -
  from assms(1) have s: "sorted_wrt (<) (map fst m)" by (simp add: tracks_inv_def)
  from assms(2) have "(k, t) \<in> set m" by (rule map_of_SomeD)
  with assms(1) have "k < n" by (auto simp: tracks_inv_def)
  with assms(1,3) show ?thesis
    unfolding tracks_inv_def using sorted_qmap_insert [OF s] set_qmap_insert [OF s]
    by auto
qed

lemma tracks_inv_new:
  assumes "tracks_inv m n" and "idT v = n"
  shows "tracks_inv (qmap_insert n v m) (n + 1)"
proof -
  from assms(1) have s: "sorted_wrt (<) (map fst m)" by (simp add: tracks_inv_def)
  from assms show ?thesis
    unfolding tracks_inv_def using sorted_qmap_insert [OF s] set_qmap_insert [OF s]
    by auto
qed

lemma tracks_inv_absent: "tracks_inv m n \<Longrightarrow> n \<le> k \<Longrightarrow> map_of m k = None"
  by (force simp: tracks_inv_def map_of_eq_None_iff)

lemma closestTrack_hit:
  assumes "closestTrack c m (- 1, MAX_TRACK_DISTANCE) = (r, rd)" and "r \<ge> 0"
  shows "\<exists>t. (r, t) \<in> set m \<and> trackDistance c t = rd \<and> rd < MAX_TRACK_DISTANCE"
  using closestTrack_result [OF assms(1)] assms(2) by auto

lemma assignDetection_hit:
  assumes "fst (closestTrack (dwc_centroid dwc) (a_tracks a) (- 1, MAX_TRACK_DISTANCE)) \<ge> 0"
  shows "assignDetection now a dwc =
     (let b = fst (closestTrack (dwc_centroid dwc) (a_tracks a) (- 1, MAX_TRACK_DISTANCE));
          track = qmap_at (a_tracks a) b
      in a\<lparr>a_tracks := qmap_insert b
               (track\<lparr>prevCentroid := centroid track, centroid := dwc_centroid dwc,
                      lastSeenMs := now\<rparr>) (a_tracks a),
            updatedTrackIds := qset_insert b (updatedTrackIds a),
            assignedIds := assignedIds a @ [b]\<rparr>)"
  using assms by (simp add: assignDetection_def Let_def case_prod_beta)

lemma assignDetection_miss:
  assumes "\<not> fst (closestTrack (dwc_centroid dwc) (a_tracks a) (- 1, MAX_TRACK_DISTANCE)) \<ge> 0"
  shows "assignDetection now a dwc =
     a\<lparr>a_tracks := qmap_insert (a_nextTrackId a)
          (TrackState_init\<lparr>idT := a_nextTrackId a, label := dwc_label dwc,
             centroid := dwc_centroid dwc, prevCentroid := dwc_centroid dwc,
             firstSeenMs := now, lastSeenMs := now, insideRoi := False,
             loiterAlertSent := False\<rparr>) (a_tracks a),
        a_nextTrackId := a_nextTrackId a + 1,
        updatedTrackIds := qset_insert (a_nextTrackId a) (updatedTrackIds a),
        assignedIds := assignedIds a @ [a_nextTrackId a]\<rparr>"
  using assms by (simp add: assignDetection_def Let_def case_prod_beta)

lemma sqrt_4th: "sqrt (1 / 4) = 1 / 2"
  by (rule real_sqrt_unique) (simp_all add: power2_eq_square)

lemma tracking_worker_reached:
  "fst (run CaptureWorker_init (take 9 ai_only_inputs)) =
     tracking_worker\<lparr>m_frameCount := 5, m_aiFrameCounter := 0\<rparr>"
  by (simp add: ai_only_inputs_def tracking_worker_def person_track_def worker_eval)

subsection \<open>Loitering\<close>













subsection \<open>What the loops over the updated tracks do to one key\<close>

lemma track_tripwire_times_append:
  "track_tripwire_times k (xs @ ys) = track_tripwire_times k xs @ track_tripwire_times k ys"
  by (induction k xs rule: track_tripwire_times.induct) simp_all

lemma loitering_times_append:
  "loitering_times k (xs @ ys) = loitering_times k xs @ loitering_times k ys"
  by (induction k xs rule: loitering_times.induct) simp_all

lemma qmap_at_Some: "map_of m k = Some t \<Longrightarrow> qmap_at m k = t"
  by (simp add: qmap_at_def)

lemma checkLineCrossing_cases:
  "checkLineCrossing w t now = (t, []) \<or>
   (now - lastTripwireAlertMs t \<ge> 2000 \<and> \<not> QPointF_eq (centroid t) (prevCentroid t) \<and>
    (\<exists>d. checkLineCrossing w t now =
       (t\<lparr>lastTripwireAlertMs := now\<rparr>,
        [EmittedAt now (trackCrossedTripwire (idT t) (label t) d)])))"
  by (simp add: checkLineCrossing_def Let_def TRIPWIRE_ALERT_DEBOUNCE_MS_def)

lemma checkLineCrossing_idT: "idT (fst (checkLineCrossing w t now)) = idT t"
  using checkLineCrossing_cases [of w t now] by auto

lemma checkLineCrossing_other:
  "idT t \<noteq> k \<Longrightarrow> track_tripwire_times k (snd (checkLineCrossing w t now)) = []"
  using checkLineCrossing_cases [of w t now] by auto

lemma checkLineCrossing_loitering:
  "loitering_times k (snd (checkLineCrossing w t now)) = []"
  using checkLineCrossing_cases [of w t now] by auto

lemma roi_step_frame:
  "idT (fst (checkLoitering (updateRoiStatus w t now) now)) = idT t"
  "label (fst (checkLoitering (updateRoiStatus w t now) now)) = label t"
  "centroid (fst (checkLoitering (updateRoiStatus w t now) now)) = centroid t"
  "prevCentroid (fst (checkLoitering (updateRoiStatus w t now) now)) = prevCentroid t"
  "lastSeenMs (fst (checkLoitering (updateRoiStatus w t now) now)) = lastSeenMs t"
  "lastTripwireAlertMs (fst (checkLoitering (updateRoiStatus w t now) now)) = lastTripwireAlertMs t"
  by (simp_all add: checkLoitering_def updateRoiStatus_def Let_def)

lemma roi_step_tripwire_times:
  "track_tripwire_times k (snd (checkLoitering t now)) = []"
  by (simp add: checkLoitering_def Let_def)

lemma roi_step_loitering_times:
  "length (loitering_times k (snd (checkLoitering t now))) \<le> 1"
  "idT t \<noteq> k \<Longrightarrow> loitering_times k (snd (checkLoitering t now)) = []"
  by (simp_all add: checkLoitering_def Let_def)

lemma lineLoop_Cons:
  "map_of m k0 = Some t \<Longrightarrow>
   lineLoop w now (k0 # ids) m =
     (fst (lineLoop w now ids (qmap_insert k0 (fst (checkLineCrossing w t now)) m)),
      snd (checkLineCrossing w t now)
        @ snd (lineLoop w now ids (qmap_insert k0 (fst (checkLineCrossing w t now)) m)))"
  by (simp add: qmap_contains_def qmap_at_def case_prod_beta)

lemma lineLoop_skip:
  "map_of m k0 = None \<Longrightarrow> lineLoop w now (k0 # ids) m = lineLoop w now ids m"
  by (simp add: qmap_contains_def)

lemma roiLoop_Cons:
  "map_of m k0 = Some t \<Longrightarrow>
   roiLoop w now (k0 # ids) m =
     (fst (roiLoop w now ids
        (qmap_insert k0 (fst (checkLoitering (updateRoiStatus w t now) now)) m)),
      snd (checkLoitering (updateRoiStatus w t now) now)
        @ snd (roiLoop w now ids
            (qmap_insert k0 (fst (checkLoitering (updateRoiStatus w t now) now)) m)))"
  by (simp add: qmap_contains_def qmap_at_def case_prod_beta Let_def)

lemma roiLoop_skip:
  "map_of m k0 = None \<Longrightarrow> roiLoop w now (k0 # ids) m = roiLoop w now ids m"
  by (simp add: qmap_contains_def)

lemma tracks_inv_entry:
  assumes "tracks_inv m n" and "map_of m k = Some t"
  shows "idT t = k \<and> k < n"
proof -
  from assms(2) have "(k, t) \<in> set m" by (rule map_of_SomeD)
  with assms(1) have "idT (snd (k, t)) = fst (k, t) \<and> fst (k, t) < n"
    unfolding tracks_inv_def by blast
  then show ?thesis by simp
qed

lemma tracks_inv_idT: "tracks_inv m n \<Longrightarrow> map_of m k = Some t \<Longrightarrow> idT t = k"
  using tracks_inv_entry by blast

lemma tracks_inv_below: "tracks_inv m n \<Longrightarrow> map_of m k = Some t \<Longrightarrow> k < n"
  using tracks_inv_entry by blast

lemma lineLoop_inv: "tracks_inv m n \<Longrightarrow> tracks_inv (fst (lineLoop w now ids m)) n"
proof (induction ids arbitrary: m)
  case Nil
  then show ?case by simp
next
  case (Cons k0 ids)
  show ?case
  proof (cases "map_of m k0")
    case None
    from Cons.IH [OF Cons.prems] show ?thesis unfolding lineLoop_skip [OF None] .
  next
    case (Some t)
    have "tracks_inv (qmap_insert k0 (fst (checkLineCrossing w t now)) m) n"
      using Cons.prems Some
      by (intro tracks_inv_update) (simp_all add: checkLineCrossing_idT tracks_inv_idT)
    from Cons.IH [OF this] show ?thesis unfolding lineLoop_Cons [OF Some] by simp
  qed
qed

lemma lineLoop_other:
  "tracks_inv m n \<Longrightarrow> k \<notin> set ids \<Longrightarrow>
   map_of (fst (lineLoop w now ids m)) k = map_of m k \<and>
   track_tripwire_times k (snd (lineLoop w now ids m)) = []"
proof (induction ids arbitrary: m)
  case Nil
  then show ?case by simp
next
  case (Cons k0 ids)
  from Cons.prems have ne: "k0 \<noteq> k" and rest: "k \<notin> set ids" by auto
  show ?case
  proof (cases "map_of m k0")
    case None
    from Cons.IH [OF Cons.prems(1) rest] show ?thesis unfolding lineLoop_skip [OF None] .
  next
    case (Some t)
    let ?m1 = "qmap_insert k0 (fst (checkLineCrossing w t now)) m"
    have inv1: "tracks_inv ?m1 n"
      using Cons.prems(1) Some
      by (intro tracks_inv_update) (simp_all add: checkLineCrossing_idT tracks_inv_idT)
    have "idT t \<noteq> k"
      using tracks_inv_idT [OF Cons.prems(1) Some] ne by simp
    then have "track_tripwire_times k (snd (checkLineCrossing w t now)) = []"
      by (rule checkLineCrossing_other)
    with Cons.IH [OF inv1 rest] ne show ?thesis
      unfolding lineLoop_Cons [OF Some]
      by (simp add: track_tripwire_times_append map_of_qmap_insert)
  qed
qed

lemma lineLoop_key:
  assumes "tracks_inv m n" and "distinct ids" and "map_of m k = Some t"
  shows "\<exists>t'. map_of (fst (lineLoop w now ids m)) k = Some t' \<and>
     ((track_tripwire_times k (snd (lineLoop w now ids m)) = [] \<and>
       lastTripwireAlertMs t' = lastTripwireAlertMs t) \<or>
      (track_tripwire_times k (snd (lineLoop w now ids m)) = [now] \<and>
       now - lastTripwireAlertMs t \<ge> 2000 \<and> \<not> QPointF_eq (centroid t) (prevCentroid t) \<and>
       lastTripwireAlertMs t' = now))"
  using assms
proof (induction ids arbitrary: m)
  case Nil
  then show ?case by simp
next
  case (Cons k0 ids)
  from Cons.prems(2) have fresh: "k0 \<notin> set ids" and d: "distinct ids" by auto
  show ?case
  proof (cases "map_of m k0")
    case None
    from Cons.IH [OF Cons.prems(1) d Cons.prems(3)] show ?thesis
      unfolding lineLoop_skip [OF None] .
  next
    case (Some t0)
    let ?r = "checkLineCrossing w t0 now"
    let ?m1 = "qmap_insert k0 (fst ?r) m"
    have inv1: "tracks_inv ?m1 n"
      using Cons.prems(1) Some
      by (intro tracks_inv_update) (simp_all add: checkLineCrossing_idT tracks_inv_idT)
    show ?thesis
    proof (cases "k0 = k")
      case True
      with Some Cons.prems(3) have t0: "t0 = t" by simp
      have id: "idT t = k"
        using tracks_inv_idT [OF Cons.prems(1) Cons.prems(3)] .
      from lineLoop_other [OF inv1, of k ids w now] fresh True
      have rest: "map_of (fst (lineLoop w now ids ?m1)) k = Some (fst ?r)"
        "track_tripwire_times k (snd (lineLoop w now ids ?m1)) = []"
        by (simp_all add: map_of_qmap_insert)
      from checkLineCrossing_cases [of w t now] show ?thesis
      proof
        assume "checkLineCrossing w t now = (t, [])"
        with rest show ?thesis
          unfolding lineLoop_Cons [OF Some] by (simp add: t0 track_tripwire_times_append)
      next
        assume "now - lastTripwireAlertMs t \<ge> 2000 \<and> \<not> QPointF_eq (centroid t) (prevCentroid t) \<and>
          (\<exists>d. checkLineCrossing w t now =
             (t\<lparr>lastTripwireAlertMs := now\<rparr>,
              [EmittedAt now (trackCrossedTripwire (idT t) (label t) d)]))"
        with rest id show ?thesis
          unfolding lineLoop_Cons [OF Some] by (auto simp: t0 track_tripwire_times_append)
      qed
    next
      case False
      have "idT t0 \<noteq> k"
        using tracks_inv_idT [OF Cons.prems(1) Some] False by simp
      then have none: "track_tripwire_times k (snd ?r) = []"
        by (rule checkLineCrossing_other)
      have "map_of ?m1 k = Some t"
        using False Cons.prems(3) by (simp add: map_of_qmap_insert)
      from Cons.IH [OF inv1 d this] none show ?thesis
        unfolding lineLoop_Cons [OF Some] by (simp add: track_tripwire_times_append)
    qed
  qed
qed

lemma lineLoop_loitering: "loitering_times k (snd (lineLoop w now ids m)) = []"
proof (induction ids arbitrary: m)
  case Nil
  then show ?case by simp
next
  case (Cons k0 ids)
  show ?case
  proof (cases "map_of m k0")
    case None
    from Cons.IH show ?thesis unfolding lineLoop_skip [OF None] .
  next
    case (Some t)
    from Cons.IH show ?thesis
      unfolding lineLoop_Cons [OF Some]
      by (simp add: loitering_times_append checkLineCrossing_loitering)
  qed
qed

lemma lineLoop_absent:
  "tracks_inv m n \<Longrightarrow> map_of m k = None \<Longrightarrow>
   map_of (fst (lineLoop w now ids m)) k = None \<and>
   track_tripwire_times k (snd (lineLoop w now ids m)) = []"
proof (induction ids arbitrary: m)
  case Nil
  then show ?case by simp
next
  case (Cons k0 ids)
  show ?case
  proof (cases "map_of m k0")
    case None
    from Cons.IH [OF Cons.prems] show ?thesis unfolding lineLoop_skip [OF None] .
  next
    case (Some t0)
    let ?m1 = "qmap_insert k0 (fst (checkLineCrossing w t0 now)) m"
    from Some Cons.prems(2) have ne: "k0 \<noteq> k" by auto
    have inv1: "tracks_inv ?m1 n"
      using Cons.prems(1) Some
      by (intro tracks_inv_update) (simp_all add: checkLineCrossing_idT tracks_inv_idT)
    have "idT t0 \<noteq> k"
      using tracks_inv_idT [OF Cons.prems(1) Some] ne by simp
    then have none: "track_tripwire_times k (snd (checkLineCrossing w t0 now)) = []"
      by (rule checkLineCrossing_other)
    have "map_of ?m1 k = None"
      using ne Cons.prems(2) by (simp add: map_of_qmap_insert)
    from Cons.IH [OF inv1 this] none show ?thesis
      unfolding lineLoop_Cons [OF Some] by (simp add: track_tripwire_times_append)
  qed
qed

lemma roiLoop_inv: "tracks_inv m n \<Longrightarrow> tracks_inv (fst (roiLoop w now ids m)) n"
proof (induction ids arbitrary: m)
  case Nil
  then show ?case by simp
next
  case (Cons k0 ids)
  show ?case
  proof (cases "map_of m k0")
    case None
    from Cons.IH [OF Cons.prems] show ?thesis unfolding roiLoop_skip [OF None] .
  next
    case (Some t)
    have "tracks_inv (qmap_insert k0 (fst (checkLoitering (updateRoiStatus w t now) now)) m) n"
      using Cons.prems Some
      by (intro tracks_inv_update) (simp_all add: roi_step_frame tracks_inv_idT)
    from Cons.IH [OF this] show ?thesis unfolding roiLoop_Cons [OF Some] by simp
  qed
qed

lemma roiLoop_tripwire_times: "track_tripwire_times k (snd (roiLoop w now ids m)) = []"
proof (induction ids arbitrary: m)
  case Nil
  then show ?case by simp
next
  case (Cons k0 ids)
  show ?case
  proof (cases "map_of m k0")
    case None
    from Cons.IH show ?thesis unfolding roiLoop_skip [OF None] .
  next
    case (Some t)
    from Cons.IH show ?thesis
      unfolding roiLoop_Cons [OF Some]
      by (simp add: track_tripwire_times_append roi_step_tripwire_times)
  qed
qed

lemma roiLoop_absent:
  "map_of m k = None \<Longrightarrow> map_of (fst (roiLoop w now ids m)) k = None"
proof (induction ids arbitrary: m)
  case Nil
  then show ?case by simp
next
  case (Cons k0 ids)
  show ?case
  proof (cases "map_of m k0")
    case None
    from Cons.IH [OF Cons.prems] show ?thesis unfolding roiLoop_skip [OF None] .
  next
    case (Some t0)
    from Some Cons.prems have ne: "k0 \<noteq> k" by auto
    have "map_of (qmap_insert k0 (fst (checkLoitering (updateRoiStatus w t0 now) now)) m) k = None"
      using ne Cons.prems by (simp add: map_of_qmap_insert)
    from Cons.IH [OF this] show ?thesis
      unfolding roiLoop_Cons [OF Some] by simp
  qed
qed

lemma roiLoop_key:
  "map_of m k = Some t \<Longrightarrow>
   \<exists>t'. map_of (fst (roiLoop w now ids m)) k = Some t' \<and> centroid t' = centroid t \<and>
        prevCentroid t' = prevCentroid t \<and> lastTripwireAlertMs t' = lastTripwireAlertMs t"
proof (induction ids arbitrary: m t)
  case Nil
  then show ?case by simp
next
  case (Cons k0 ids)
  show ?case
  proof (cases "map_of m k0")
    case None
    from Cons.IH [OF Cons.prems] show ?thesis unfolding roiLoop_skip [OF None] .
  next
    case (Some t0)
    let ?t1 = "fst (checkLoitering (updateRoiStatus w t0 now) now)"
    show ?thesis
    proof (cases "k0 = k")
      case True
      with Some Cons.prems have "t0 = t" by simp
      moreover have "map_of (qmap_insert k0 ?t1 m) k = Some ?t1"
        using True by (simp add: map_of_qmap_insert)
      ultimately show ?thesis
        using Cons.IH [of "qmap_insert k0 ?t1 m" ?t1]
        unfolding roiLoop_Cons [OF Some] by (simp add: roi_step_frame)
    next
      case False
      then have "map_of (qmap_insert k0 ?t1 m) k = Some t"
        using Cons.prems by (simp add: map_of_qmap_insert)
      from Cons.IH [OF this] show ?thesis
        unfolding roiLoop_Cons [OF Some] by simp
    qed
  qed
qed

lemma roiLoop_other:
  "tracks_inv m n \<Longrightarrow> k \<notin> set ids \<Longrightarrow> loitering_times k (snd (roiLoop w now ids m)) = []"
proof (induction ids arbitrary: m)
  case Nil
  then show ?case by simp
next
  case (Cons k0 ids)
  from Cons.prems have ne: "k0 \<noteq> k" and rest: "k \<notin> set ids" by auto
  show ?case
  proof (cases "map_of m k0")
    case None
    from Cons.IH [OF Cons.prems(1) rest] show ?thesis unfolding roiLoop_skip [OF None] .
  next
    case (Some t0)
    let ?t1 = "fst (checkLoitering (updateRoiStatus w t0 now) now)"
    have inv1: "tracks_inv (qmap_insert k0 ?t1 m) n"
      using Cons.prems(1) Some
      by (intro tracks_inv_update) (simp_all add: roi_step_frame tracks_inv_idT)
    have "idT (updateRoiStatus w t0 now) \<noteq> k"
      using tracks_inv_idT [OF Cons.prems(1) Some] ne
      by (simp add: updateRoiStatus_def Let_def)
    then have "loitering_times k (snd (checkLoitering (updateRoiStatus w t0 now) now)) = []"
      by (rule roi_step_loitering_times(2))
    with Cons.IH [OF inv1 rest] show ?thesis
      unfolding roiLoop_Cons [OF Some] by (simp add: loitering_times_append)
  qed
qed

lemma roiLoop_once:
  "tracks_inv m n \<Longrightarrow> distinct ids \<Longrightarrow> length (loitering_times k (snd (roiLoop w now ids m))) \<le> 1"
proof (induction ids arbitrary: m)
  case Nil
  then show ?case by simp
next
  case (Cons k0 ids)
  from Cons.prems(2) have fresh: "k0 \<notin> set ids" and d: "distinct ids" by auto
  show ?case
  proof (cases "map_of m k0")
    case None
    from Cons.IH [OF Cons.prems(1) d] show ?thesis unfolding roiLoop_skip [OF None] .
  next
    case (Some t0)
    let ?r = "checkLoitering (updateRoiStatus w t0 now) now"
    have inv1: "tracks_inv (qmap_insert k0 (fst ?r) m) n"
      using Cons.prems(1) Some
      by (intro tracks_inv_update) (simp_all add: roi_step_frame tracks_inv_idT)
    show ?thesis
    proof (cases "k0 = k")
      case True
      with fresh have "loitering_times k (snd (roiLoop w now ids (qmap_insert k0 (fst ?r) m))) = []"
        using roiLoop_other [OF inv1] by simp
      with roi_step_loitering_times(1) [of k "updateRoiStatus w t0 now" now] show ?thesis
        unfolding roiLoop_Cons [OF Some] by (simp add: loitering_times_append)
    next
      case False
      have "idT (updateRoiStatus w t0 now) \<noteq> k"
        using tracks_inv_idT [OF Cons.prems(1) Some] False
        by (simp add: updateRoiStatus_def Let_def)
      then have "loitering_times k (snd ?r) = []"
        by (rule roi_step_loitering_times(2))
      with Cons.IH [OF inv1 d] show ?thesis
        unfolding roiLoop_Cons [OF Some] by (simp add: loitering_times_append)
    qed
  qed
qed

lemma cleanupStaleTracks_inv:
  assumes "tracks_inv m n"
  shows "tracks_inv (cleanupStaleTracks now m) n"
  using assms cleanupStaleTracks_sorted [of m now] cleanupStaleTracks_mem [of _ now m]
  unfolding tracks_inv_def by blast

lemma cleanupStaleTracks_map_of:
  assumes "tracks_inv m n"
  shows "map_of (cleanupStaleTracks now m) k = None \<or>
         map_of (cleanupStaleTracks now m) k = map_of m k"
proof (cases "map_of (cleanupStaleTracks now m) k")
  case None
  then show ?thesis by simp
next
  case (Some t)
  then have "(k, t) \<in> set (cleanupStaleTracks now m)" by (rule map_of_SomeD)
  then have "(k, t) \<in> set m" using cleanupStaleTracks_mem by blast
  moreover from assms have "sorted_wrt (<) (map fst m)" by (simp add: tracks_inv_def)
  ultimately have "map_of m k = Some t" by (simp add: map_of_sorted_iff)
  with Some show ?thesis by simp
qed

subsection \<open>The assignment loop\<close>

lemma assignDetection_shape:
  assumes "tracks_inv (a_tracks a) (a_nextTrackId a)"
  shows "(\<exists>b t0. map_of (a_tracks a) b = Some t0 \<and>
            assignDetection now a dwc =
              a\<lparr>a_tracks := qmap_insert b
                     (t0\<lparr>prevCentroid := centroid t0, centroid := dwc_centroid dwc,
                         lastSeenMs := now\<rparr>) (a_tracks a),
                 updatedTrackIds := qset_insert b (updatedTrackIds a),
                 assignedIds := assignedIds a @ [b]\<rparr>) \<or>
         assignDetection now a dwc =
           a\<lparr>a_tracks := qmap_insert (a_nextTrackId a)
                  (TrackState_init\<lparr>idT := a_nextTrackId a, label := dwc_label dwc,
                     centroid := dwc_centroid dwc, prevCentroid := dwc_centroid dwc,
                     firstSeenMs := now, lastSeenMs := now, insideRoi := False,
                     loiterAlertSent := False\<rparr>) (a_tracks a),
              a_nextTrackId := a_nextTrackId a + 1,
              updatedTrackIds := qset_insert (a_nextTrackId a) (updatedTrackIds a),
              assignedIds := assignedIds a @ [a_nextTrackId a]\<rparr>"
proof (cases "fst (closestTrack (dwc_centroid dwc) (a_tracks a) (- 1, MAX_TRACK_DISTANCE)) \<ge> 0")
  case True
  let ?r = "closestTrack (dwc_centroid dwc) (a_tracks a) (- 1, MAX_TRACK_DISTANCE)"
  obtain t0 where "(fst ?r, t0) \<in> set (a_tracks a)"
    using closestTrack_hit [of "dwc_centroid dwc" "a_tracks a" "fst ?r" "snd ?r"] True by auto
  moreover from assms have "sorted_wrt (<) (map fst (a_tracks a))"
    by (simp add: tracks_inv_def)
  ultimately have m: "map_of (a_tracks a) (fst ?r) = Some t0"
    by (simp add: map_of_sorted_iff)
  then have "qmap_at (a_tracks a) (fst ?r) = t0" by (rule qmap_at_Some)
  with assignDetection_hit [OF True, of now] m show ?thesis
    by (simp add: Let_def) blast
next
  case False
  from assignDetection_miss [OF this, of now] show ?thesis by simp
qed

lemma assignDetection_inv:
  assumes "tracks_inv (a_tracks a) (a_nextTrackId a)"
  shows "tracks_inv (a_tracks (assignDetection now a dwc)) (a_nextTrackId (assignDetection now a dwc))
         \<and> a_nextTrackId a \<le> a_nextTrackId (assignDetection now a dwc)"
  using assignDetection_shape [OF assms, of now dwc]
proof (elim disjE exE conjE)
  fix b t0
  assume m: "map_of (a_tracks a) b = Some t0"
    and e: "assignDetection now a dwc =
              a\<lparr>a_tracks := qmap_insert b
                     (t0\<lparr>prevCentroid := centroid t0, centroid := dwc_centroid dwc,
                         lastSeenMs := now\<rparr>) (a_tracks a),
                 updatedTrackIds := qset_insert b (updatedTrackIds a),
                 assignedIds := assignedIds a @ [b]\<rparr>"
  have "tracks_inv (qmap_insert b
         (t0\<lparr>prevCentroid := centroid t0, centroid := dwc_centroid dwc, lastSeenMs := now\<rparr>)
         (a_tracks a)) (a_nextTrackId a)"
    using assms m by (intro tracks_inv_update) (simp_all add: tracks_inv_idT)
  then show ?thesis by (simp add: e)
next
  assume e: "assignDetection now a dwc =
           a\<lparr>a_tracks := qmap_insert (a_nextTrackId a)
                  (TrackState_init\<lparr>idT := a_nextTrackId a, label := dwc_label dwc,
                     centroid := dwc_centroid dwc, prevCentroid := dwc_centroid dwc,
                     firstSeenMs := now, lastSeenMs := now, insideRoi := False,
                     loiterAlertSent := False\<rparr>) (a_tracks a),
              a_nextTrackId := a_nextTrackId a + 1,
              updatedTrackIds := qset_insert (a_nextTrackId a) (updatedTrackIds a),
              assignedIds := assignedIds a @ [a_nextTrackId a]\<rparr>"
  have "tracks_inv (qmap_insert (a_nextTrackId a)
                  (TrackState_init\<lparr>idT := a_nextTrackId a, label := dwc_label dwc,
                     centroid := dwc_centroid dwc, prevCentroid := dwc_centroid dwc,
                     firstSeenMs := now, lastSeenMs := now, insideRoi := False,
                     loiterAlertSent := False\<rparr>) (a_tracks a)) (a_nextTrackId a + 1)"
    using assms by (intro tracks_inv_new) simp_all
  then show ?thesis by (simp add: e)
qed

text \<open>One detection and one key: the track under it, its debounce clock, its count.\<close>

lemma assignDetection_key:
  assumes "tracks_inv (a_tracks a) (a_nextTrackId a)"
  shows
    "(\<forall>t. map_of (a_tracks a) k = Some t \<longrightarrow>
        (\<exists>t'. map_of (a_tracks (assignDetection now a dwc)) k = Some t' \<and>
              lastTripwireAlertMs t' = lastTripwireAlertMs t \<and>
              (count_list (assignedIds (assignDetection now a dwc)) k = count_list (assignedIds a) k
                 \<longrightarrow> t' = t))) \<and>
     (map_of (a_tracks a) k = None \<longrightarrow>
        (map_of (a_tracks (assignDetection now a dwc)) k = None \<and>
         count_list (assignedIds (assignDetection now a dwc)) k = count_list (assignedIds a) k \<and>
         (a_nextTrackId a \<le> k \<longrightarrow> a_nextTrackId (assignDetection now a dwc) \<le> k)) \<or>
        (k = a_nextTrackId a \<and>
         count_list (assignedIds (assignDetection now a dwc)) k = count_list (assignedIds a) k + 1 \<and>
         (\<exists>t'. map_of (a_tracks (assignDetection now a dwc)) k = Some t' \<and>
               lastTripwireAlertMs t' = 0 \<and> prevCentroid t' = centroid t'))) \<and>
     count_list (assignedIds a) k \<le> count_list (assignedIds (assignDetection now a dwc)) k"
  using assignDetection_shape [OF assms, of now dwc]
proof (elim disjE exE conjE)
  fix b t0
  assume m: "map_of (a_tracks a) b = Some t0"
    and e: "assignDetection now a dwc =
              a\<lparr>a_tracks := qmap_insert b
                     (t0\<lparr>prevCentroid := centroid t0, centroid := dwc_centroid dwc,
                         lastSeenMs := now\<rparr>) (a_tracks a),
                 updatedTrackIds := qset_insert b (updatedTrackIds a),
                 assignedIds := assignedIds a @ [b]\<rparr>"
  show ?thesis
    using m by (auto simp: e map_of_qmap_insert)
next
  assume e: "assignDetection now a dwc =
           a\<lparr>a_tracks := qmap_insert (a_nextTrackId a)
                  (TrackState_init\<lparr>idT := a_nextTrackId a, label := dwc_label dwc,
                     centroid := dwc_centroid dwc, prevCentroid := dwc_centroid dwc,
                     firstSeenMs := now, lastSeenMs := now, insideRoi := False,
                     loiterAlertSent := False\<rparr>) (a_tracks a),
              a_nextTrackId := a_nextTrackId a + 1,
              updatedTrackIds := qset_insert (a_nextTrackId a) (updatedTrackIds a),
              assignedIds := assignedIds a @ [a_nextTrackId a]\<rparr>"
  have "\<And>t. map_of (a_tracks a) k = Some t \<Longrightarrow> k \<noteq> a_nextTrackId a"
    using tracks_inv_below [OF assms] by fastforce
  then show ?thesis
    by (auto simp: e map_of_qmap_insert TrackState_init_def)
qed

lemma assignDetection_key_some:
  assumes "tracks_inv (a_tracks a) (a_nextTrackId a)" and "map_of (a_tracks a) k = Some t"
  shows "\<exists>t'. map_of (a_tracks (assignDetection now a dwc)) k = Some t' \<and>
              lastTripwireAlertMs t' = lastTripwireAlertMs t \<and>
              (count_list (assignedIds (assignDetection now a dwc)) k = count_list (assignedIds a) k
                 \<longrightarrow> t' = t)"
  using assignDetection_key [OF assms(1), of k now dwc] assms(2) by simp

lemma assignDetection_key_none:
  assumes "tracks_inv (a_tracks a) (a_nextTrackId a)" and "map_of (a_tracks a) k = None"
  shows "(map_of (a_tracks (assignDetection now a dwc)) k = None \<and>
         count_list (assignedIds (assignDetection now a dwc)) k = count_list (assignedIds a) k) \<or>
        (k = a_nextTrackId a \<and>
         count_list (assignedIds (assignDetection now a dwc)) k = count_list (assignedIds a) k + 1 \<and>
         (\<exists>t'. map_of (a_tracks (assignDetection now a dwc)) k = Some t' \<and>
               lastTripwireAlertMs t' = 0 \<and> prevCentroid t' = centroid t'))"
  using assignDetection_key [OF assms(1), of k now dwc] assms(2) by auto

lemma assignDetection_count_mono:
  assumes "tracks_inv (a_tracks a) (a_nextTrackId a)"
  shows "count_list (assignedIds a) k \<le> count_list (assignedIds (assignDetection now a dwc)) k"
  using assignDetection_key [OF assms(1), of k now dwc] by simp

lemma assignAll_inv:
  "tracks_inv (a_tracks a) (a_nextTrackId a) \<Longrightarrow>
   tracks_inv (a_tracks (assignAll now a dwcs)) (a_nextTrackId (assignAll now a dwcs)) \<and>
   a_nextTrackId a \<le> a_nextTrackId (assignAll now a dwcs)"
proof (induction dwcs arbitrary: a)
  case Nil
  then show ?case by simp
next
  case (Cons dwc dwcs)
  from assignDetection_inv [OF Cons.prems, of now dwc] Cons.IH [of "assignDetection now a dwc"]
  show ?case by auto
qed

lemma assignAll_count_mono:
  "tracks_inv (a_tracks a) (a_nextTrackId a) \<Longrightarrow>
   count_list (assignedIds a) k \<le> count_list (assignedIds (assignAll now a dwcs)) k"
proof (induction dwcs arbitrary: a)
  case Nil
  then show ?case by simp
next
  case (Cons dwc dwcs)
  have "count_list (assignedIds a) k \<le> count_list (assignedIds (assignDetection now a dwc)) k"
    by (rule assignDetection_count_mono [OF Cons.prems])
  also have "\<dots> \<le> count_list (assignedIds (assignAll now (assignDetection now a dwc) dwcs)) k"
    using assignDetection_inv [OF Cons.prems, of now dwc] by (intro Cons.IH) simp
  finally show ?case by simp
qed

lemma assignAll_key:
  "tracks_inv (a_tracks a) (a_nextTrackId a) \<Longrightarrow>
   (\<forall>t. map_of (a_tracks a) k = Some t \<longrightarrow>
      (\<exists>t'. map_of (a_tracks (assignAll now a dwcs)) k = Some t' \<and>
            lastTripwireAlertMs t' = lastTripwireAlertMs t)) \<and>
   (map_of (a_tracks a) k = None \<longrightarrow>
      map_of (a_tracks (assignAll now a dwcs)) k = None \<or>
      (a_nextTrackId a \<le> k \<and>
       (\<exists>t'. map_of (a_tracks (assignAll now a dwcs)) k = Some t' \<and> lastTripwireAlertMs t' = 0)))"
proof (induction dwcs arbitrary: a)
  case Nil
  then show ?case by simp
next
  case (Cons dwc dwcs)
  let ?a1 = "assignDetection now a dwc"
  have inv1: "tracks_inv (a_tracks ?a1) (a_nextTrackId ?a1)" and le: "a_nextTrackId a \<le> a_nextTrackId ?a1"
    using assignDetection_inv [OF Cons.prems, of now dwc] by simp_all
  note ih = Cons.IH [OF inv1]
  show ?case
  proof (cases "map_of (a_tracks a) k")
    case (Some t)
    from assignDetection_key_some [OF Cons.prems Some, of now dwc]
    obtain t1 where "map_of (a_tracks ?a1) k = Some t1"
      "lastTripwireAlertMs t1 = lastTripwireAlertMs t" by blast
    with ih Some show ?thesis by auto
  next
    case None
    from assignDetection_key_none [OF Cons.prems None, of now dwc] show ?thesis
    proof (elim disjE conjE exE)
      assume "map_of (a_tracks ?a1) k = None"
      with ih le None show ?thesis by auto
    next
      fix t1
      assume "k = a_nextTrackId a" "map_of (a_tracks ?a1) k = Some t1"
        "lastTripwireAlertMs t1 = 0"
      with ih None show ?thesis by auto
    qed
  qed
qed

lemma assignAll_untouched:
  "tracks_inv (a_tracks a) (a_nextTrackId a) \<Longrightarrow> map_of (a_tracks a) k = Some t \<Longrightarrow>
   count_list (assignedIds (assignAll now a dwcs)) k = count_list (assignedIds a) k \<Longrightarrow>
   map_of (a_tracks (assignAll now a dwcs)) k = Some t"
proof (induction dwcs arbitrary: a)
  case Nil
  then show ?case by simp
next
  case (Cons dwc dwcs)
  let ?a1 = "assignDetection now a dwc"
  have inv1: "tracks_inv (a_tracks ?a1) (a_nextTrackId ?a1)"
    using assignDetection_inv [OF Cons.prems(1), of now dwc] by simp
  have "count_list (assignedIds a) k \<le> count_list (assignedIds ?a1) k"
    by (rule assignDetection_count_mono [OF Cons.prems(1)])
  moreover have "count_list (assignedIds ?a1) k \<le> count_list (assignedIds (assignAll now ?a1 dwcs)) k"
    by (rule assignAll_count_mono [OF inv1])
  ultimately have c1: "count_list (assignedIds ?a1) k = count_list (assignedIds a) k"
    and c2: "count_list (assignedIds (assignAll now ?a1 dwcs)) k = count_list (assignedIds ?a1) k"
    using Cons.prems(3) by simp_all
  from assignDetection_key_some [OF Cons.prems(1,2), of now dwc] c1
  have "map_of (a_tracks ?a1) k = Some t" by auto
  from Cons.IH [OF inv1 this c2] show ?case by simp
qed

lemma assignAll_newborn:
  "tracks_inv (a_tracks a) (a_nextTrackId a) \<Longrightarrow> map_of (a_tracks a) k = None \<Longrightarrow>
   count_list (assignedIds (assignAll now a dwcs)) k \<le> count_list (assignedIds a) k + 1 \<Longrightarrow>
   map_of (a_tracks (assignAll now a dwcs)) k = Some t' \<Longrightarrow> prevCentroid t' = centroid t'"
proof (induction dwcs arbitrary: a)
  case Nil
  then show ?case by simp
next
  case (Cons dwc dwcs)
  let ?a1 = "assignDetection now a dwc"
  have inv1: "tracks_inv (a_tracks ?a1) (a_nextTrackId ?a1)"
    using assignDetection_inv [OF Cons.prems(1), of now dwc] by simp
  have mono: "count_list (assignedIds ?a1) k \<le> count_list (assignedIds (assignAll now ?a1 dwcs)) k"
    by (rule assignAll_count_mono [OF inv1])
  from assignDetection_key_none [OF Cons.prems(1,2), of now dwc] show ?case
  proof (elim disjE conjE exE)
    assume same: "map_of (a_tracks ?a1) k = None"
      "count_list (assignedIds ?a1) k = count_list (assignedIds a) k"
    with Cons.IH [OF inv1 same(1)] Cons.prems(3,4) show ?thesis by simp
  next
    fix t1
    assume new: "map_of (a_tracks ?a1) k = Some t1" "prevCentroid t1 = centroid t1"
      "count_list (assignedIds ?a1) k = count_list (assignedIds a) k + 1"
    with mono Cons.prems(3) have
      "count_list (assignedIds (assignAll now ?a1 dwcs)) k = count_list (assignedIds ?a1) k"
      by simp
    from assignAll_untouched [OF inv1 new(1) this] Cons.prems(4) new(2) show ?thesis by simp
  qed
qed

lemma assignDetection_ids:
  "length (assignedIds (assignDetection now a dwc)) = length (assignedIds a) + 1 \<and>
   (distinct (updatedTrackIds a) \<longrightarrow> distinct (updatedTrackIds (assignDetection now a dwc))) \<and>
   (set (updatedTrackIds a) = set (assignedIds a) \<longrightarrow>
    set (updatedTrackIds (assignDetection now a dwc)) = set (assignedIds (assignDetection now a dwc)))"
  by (auto simp: assignDetection_def Let_def case_prod_beta qset_insert_def)

lemma assignAll_ids:
  "distinct (updatedTrackIds a) \<Longrightarrow> set (updatedTrackIds a) = set (assignedIds a) \<Longrightarrow>
   length (assignedIds (assignAll now a dwcs)) = length (assignedIds a) + length dwcs \<and>
   distinct (updatedTrackIds (assignAll now a dwcs)) \<and>
   set (updatedTrackIds (assignAll now a dwcs)) = set (assignedIds (assignAll now a dwcs))"
proof (induction dwcs arbitrary: a)
  case Nil
  then show ?case by simp
next
  case (Cons dwc dwcs)
  from assignDetection_ids [of now a dwc] Cons.prems
  have "distinct (updatedTrackIds (assignDetection now a dwc))"
    "set (updatedTrackIds (assignDetection now a dwc)) = set (assignedIds (assignDetection now a dwc))"
    "length (assignedIds (assignDetection now a dwc)) = length (assignedIds a) + 1"
    by blast+
  with Cons.IH [of "assignDetection now a dwc"] show ?case by simp
qed

lemma gaps_ok_Cons: "gaps_ok d (t # ts) = gaps_from d t ts"
  by (induction ts arbitrary: t) simp_all

lemma gaps_from_ok: "gaps_from d l ts \<Longrightarrow> gaps_ok d ts"
  by (cases ts) (simp_all add: gaps_ok_Cons)

subsection \<open>One invocation of updateTracks\<close>

lemma updateTracks_alt:
  "updateTracks w dets fw fh now =
     (let a = assignTracks w dets fw fh now;
          r = roiLoop w now (updatedTrackIds a) (a_tracks a);
          l = (if m_hasTripwire w then lineLoop w now (updatedTrackIds a) (fst r) else (fst r, []))
      in (w\<lparr>m_tracks := cleanupStaleTracks now (fst l), m_nextTrackId := a_nextTrackId a\<rparr>,
          snd r @ snd l))"
  by (simp add: updateTracks_def assignTracks_def Let_def case_prod_beta)

lemma assignTracks_inv:
  assumes "tracks_inv (m_tracks w) (m_nextTrackId w)"
  shows "tracks_inv (a_tracks (assignTracks w dets fw fh now))
           (a_nextTrackId (assignTracks w dets fw fh now))"
    and "m_nextTrackId w \<le> a_nextTrackId (assignTracks w dets fw fh now)"
  using assms assignAll_inv [of "\<lparr>a_tracks = m_tracks w, a_nextTrackId = m_nextTrackId w,
        updatedTrackIds = [], assignedIds = []\<rparr>"]
  by (simp_all add: assignTracks_def)

lemma assignTracks_ids:
  "length (assignedIds (assignTracks w dets fw fh now)) =
     length (trackedDetections (case m_detector w of Some d \<Rightarrow> classNames d | None \<Rightarrow> [])
               fw fh 0 dets) \<and>
   distinct (updatedTrackIds (assignTracks w dets fw fh now)) \<and>
   set (updatedTrackIds (assignTracks w dets fw fh now)) =
     set (assignedIds (assignTracks w dets fw fh now))"
  using assignAll_ids [of "\<lparr>a_tracks = m_tracks w, a_nextTrackId = m_nextTrackId w,
        updatedTrackIds = [], assignedIds = []\<rparr>"]
  by (simp add: assignTracks_def)

lemma updateTracks_inv:
  assumes "tracks_inv (m_tracks w) (m_nextTrackId w)"
  shows "tracks_inv (m_tracks (fst (updateTracks w dets fw fh now)))
           (m_nextTrackId (fst (updateTracks w dets fw fh now)))"
    and "m_nextTrackId w \<le> m_nextTrackId (fst (updateTracks w dets fw fh now))"
proof -
  let ?a = "assignTracks w dets fw fh now"
  note a = assignTracks_inv [OF assms, of dets fw fh now]
  have r: "tracks_inv (fst (roiLoop w now (updatedTrackIds ?a) (a_tracks ?a))) (a_nextTrackId ?a)"
    using a(1) by (rule roiLoop_inv)
  then have l: "tracks_inv (fst (lineLoop w now (updatedTrackIds ?a)
      (fst (roiLoop w now (updatedTrackIds ?a) (a_tracks ?a))))) (a_nextTrackId ?a)"
    by (rule lineLoop_inv)
  from r l show "tracks_inv (m_tracks (fst (updateTracks w dets fw fh now)))
           (m_nextTrackId (fst (updateTracks w dets fw fh now)))"
    by (simp add: updateTracks_alt Let_def cleanupStaleTracks_inv)
  from a(2) show "m_nextTrackId w \<le> m_nextTrackId (fst (updateTracks w dets fw fh now))"
    by (simp add: updateTracks_alt Let_def)
qed

lemma updateTracks_once:
  assumes "tracks_inv (m_tracks w) (m_nextTrackId w)"
  shows "length (track_tripwire_times k (snd (updateTracks w dets fw fh now))) \<le> 1 \<and>
         length (loitering_times k (snd (updateTracks w dets fw fh now))) \<le> 1"
proof -
  let ?a = "assignTracks w dets fw fh now"
  let ?r = "roiLoop w now (updatedTrackIds ?a) (a_tracks ?a)"
  let ?l = "lineLoop w now (updatedTrackIds ?a) (fst ?r)"
  note a = assignTracks_inv [OF assms, of dets fw fh now]
  have d: "distinct (updatedTrackIds ?a)"
    using assignTracks_ids by blast
  have r: "tracks_inv (fst ?r) (a_nextTrackId ?a)"
    using a(1) by (rule roiLoop_inv)
  have lo: "length (loitering_times k (snd ?r)) \<le> 1"
    using a(1) d by (rule roiLoop_once)
  have tw: "length (track_tripwire_times k (snd ?l)) \<le> 1"
  proof (cases "map_of (fst ?r) k")
    case None
    from lineLoop_absent [OF r None] show ?thesis by simp
  next
    case (Some t)
    from lineLoop_key [OF r d Some, of w now] show ?thesis by auto
  qed
  from lo tw show ?thesis
    by (simp add: updateTracks_alt Let_def track_tripwire_times_append loitering_times_append
        roiLoop_tripwire_times lineLoop_loitering)
qed

lemma QPointF_eq_refl: "QPointF_eq p p"
  by (simp add: QPointF_eq_def qFuzzyIsNull_def qFuzzyCompare_def)

lemma updateTracks_newborn:
  assumes inv: "tracks_inv (m_tracks w) (m_nextTrackId w)"
    and new: "m_nextTrackId w \<le> k"
    and once: "count_list (assignedIds (assignTracks w dets fw fh now)) k \<le> 1"
  shows "track_tripwire_times k (snd (updateTracks w dets fw fh now)) = []"
proof -
  let ?init = "\<lparr>a_tracks = m_tracks w, a_nextTrackId = m_nextTrackId w,
        updatedTrackIds = [], assignedIds = []\<rparr>"
  let ?dwcs = "trackedDetections (case m_detector w of Some d \<Rightarrow> classNames d | None \<Rightarrow> [])
      fw fh 0 dets"
  let ?a = "assignTracks w dets fw fh now"
  let ?r = "roiLoop w now (updatedTrackIds ?a) (a_tracks ?a)"
  let ?l = "lineLoop w now (updatedTrackIds ?a) (fst ?r)"
  note a = assignTracks_inv [OF inv, of dets fw fh now]
  have d: "distinct (updatedTrackIds ?a)"
    using assignTracks_ids by blast
  have r: "tracks_inv (fst ?r) (a_nextTrackId ?a)"
    using a(1) by (rule roiLoop_inv)
  have absent: "map_of (m_tracks w) k = None"
    using inv new by (rule tracks_inv_absent)
  have "track_tripwire_times k (snd ?l) = []"
  proof (cases "map_of (a_tracks ?a) k")
    case None
    then have "map_of (fst ?r) k = None" by (rule roiLoop_absent)
    from lineLoop_absent [OF r this] show ?thesis by simp
  next
    case (Some t)
    have e: "?a = assignAll now ?init ?dwcs"
      by (simp add: assignTracks_def)
    have "prevCentroid t = centroid t"
    proof (rule assignAll_newborn [where a = ?init and k = k and now = now and dwcs = ?dwcs])
      show "tracks_inv (a_tracks ?init) (a_nextTrackId ?init)"
        using inv by simp
      show "map_of (a_tracks ?init) k = None"
        using absent by simp
      show "count_list (assignedIds (assignAll now ?init ?dwcs)) k \<le> count_list (assignedIds ?init) k + 1"
        using once unfolding e by simp
      show "map_of (a_tracks (assignAll now ?init ?dwcs)) k = Some t"
        using Some unfolding e .
    qed
    moreover from roiLoop_key [OF Some, of w now "updatedTrackIds ?a"]
    obtain t' where t': "map_of (fst ?r) k = Some t'" "centroid t' = centroid t"
      "prevCentroid t' = prevCentroid t" by blast
    ultimately have "QPointF_eq (centroid t') (prevCentroid t')"
      by (simp add: QPointF_eq_refl)
    with lineLoop_key [OF r d t'(1), of w now] show ?thesis by auto
  qed
  then show ?thesis
    by (simp add: updateTracks_alt Let_def track_tripwire_times_append roiLoop_tripwire_times)
qed

lemma updateTracks_view:
  assumes inv: "tracks_inv (m_tracks w) (m_nextTrackId w)"
    and later: "track_view (m_tracks (fst (updateTracks w dets fw fh now)))
                  (m_nextTrackId (fst (updateTracks w dets fw fh now))) k ts"
  shows "track_view (m_tracks w) (m_nextTrackId w) k
           (track_tripwire_times k (snd (updateTracks w dets fw fh now)) @ ts)"
proof -
  let ?init = "\<lparr>a_tracks = m_tracks w, a_nextTrackId = m_nextTrackId w,
        updatedTrackIds = [], assignedIds = []\<rparr>"
  let ?a = "assignTracks w dets fw fh now"
  let ?r = "roiLoop w now (updatedTrackIds ?a) (a_tracks ?a)"
  let ?l = "if m_hasTripwire w then lineLoop w now (updatedTrackIds ?a) (fst ?r) else (fst ?r, [])"
  let ?m' = "cleanupStaleTracks now (fst ?l)"
  let ?ts1 = "track_tripwire_times k (snd ?l)"
  note a = assignTracks_inv [OF inv, of dets fw fh now]
  have d: "distinct (updatedTrackIds ?a)"
    using assignTracks_ids by blast
  have r: "tracks_inv (fst ?r) (a_nextTrackId ?a)"
    using a(1) by (rule roiLoop_inv)
  have l: "tracks_inv (fst ?l) (a_nextTrackId ?a)"
    using r lineLoop_inv by simp
  have res: "m_tracks (fst (updateTracks w dets fw fh now)) = ?m'"
    "m_nextTrackId (fst (updateTracks w dets fw fh now)) = a_nextTrackId ?a"
    "track_tripwire_times k (snd (updateTracks w dets fw fh now)) = ?ts1"
    by (simp_all add: updateTracks_alt Let_def track_tripwire_times_append roiLoop_tripwire_times)
  from later have later': "track_view ?m' (a_nextTrackId ?a) k ts"
    by (simp only: res)
  have key0:
    "(\<forall>t. map_of (m_tracks w) k = Some t \<longrightarrow>
        (\<exists>t'. map_of (a_tracks ?a) k = Some t' \<and> lastTripwireAlertMs t' = lastTripwireAlertMs t)) \<and>
     (map_of (m_tracks w) k = None \<longrightarrow>
        map_of (a_tracks ?a) k = None \<or>
        (m_nextTrackId w \<le> k \<and>
         (\<exists>t'. map_of (a_tracks ?a) k = Some t' \<and> lastTripwireAlertMs t' = 0)))"
    using assignAll_key [of ?init k now] inv by (simp add: assignTracks_def)
  have gone: "map_of (fst ?l) k = None \<Longrightarrow> ?ts1 = []"
  proof -
    assume n: "map_of (fst ?l) k = None"
    show "?ts1 = []"
    proof (cases "m_hasTripwire w")
      case False
      then show ?thesis by simp
    next
      case True
      show ?thesis
      proof (cases "map_of (fst ?r) k")
        case None
        from lineLoop_absent [OF r None] True show ?thesis by simp
      next
        case (Some t)
        from lineLoop_key [OF r d Some, of w now] n True show ?thesis by auto
      qed
    qed
  qed
  have live: "\<And>t. map_of (fst ?r) k = Some t \<Longrightarrow>
      \<exists>t'. map_of (fst ?l) k = Some t' \<and>
        ((?ts1 = [] \<and> lastTripwireAlertMs t' = lastTripwireAlertMs t) \<or>
         (?ts1 = [now] \<and> now - lastTripwireAlertMs t \<ge> 2000 \<and> lastTripwireAlertMs t' = now))"
  proof -
    fix t assume s: "map_of (fst ?r) k = Some t"
    show "\<exists>t'. map_of (fst ?l) k = Some t' \<and>
        ((?ts1 = [] \<and> lastTripwireAlertMs t' = lastTripwireAlertMs t) \<or>
         (?ts1 = [now] \<and> now - lastTripwireAlertMs t \<ge> 2000 \<and> lastTripwireAlertMs t' = now))"
    proof (cases "m_hasTripwire w")
      case False
      with s show ?thesis by simp
    next
      case True
      from lineLoop_key [OF r d s, of w now] True show ?thesis by auto
    qed
  qed
  have ts1_short: "?ts1 = [] \<or> ?ts1 = [now]"
  proof (cases "map_of (fst ?r) k")
    case None
    then have "map_of (fst ?l) k = None"
      using lineLoop_absent [OF r None] by simp
    from gone [OF this] show ?thesis by simp
  next
    case (Some t)
    from live [OF this] show ?thesis by blast
  qed
  note clean = cleanupStaleTracks_map_of [OF l, of now k]
  show ?thesis
  proof (cases "map_of (m_tracks w) k")
    case (Some t)
    then have below: "k < m_nextTrackId w"
      using tracks_inv_below [OF inv] by simp
    from key0 Some obtain t1 where t1: "map_of (a_tracks ?a) k = Some t1"
      "lastTripwireAlertMs t1 = lastTripwireAlertMs t"
      by auto
    from roiLoop_key [OF t1(1), of w now "updatedTrackIds ?a"] t1(2)
    obtain t2 where t2: "map_of (fst ?r) k = Some t2"
      "lastTripwireAlertMs t2 = lastTripwireAlertMs t" by auto
    from live [OF t2(1)] t2(2) obtain t3 where t3: "map_of (fst ?l) k = Some t3"
      "(?ts1 = [] \<and> lastTripwireAlertMs t3 = lastTripwireAlertMs t) \<or>
       (?ts1 = [now] \<and> now - lastTripwireAlertMs t \<ge> 2000 \<and> lastTripwireAlertMs t3 = now)"
      by auto
    from clean show ?thesis
    proof
      assume n: "map_of ?m' k = None"
      with later' below a(2) have "ts = []"
        by (simp add: track_view_def)
      with t3(2) Some show ?thesis
        by (auto simp: res track_view_def)
    next
      assume "map_of ?m' k = map_of (fst ?l) k"
      with later' t3(1) have "gaps_from 2000 (lastTripwireAlertMs t3) ts"
        by (simp add: track_view_def)
      with t3(2) Some show ?thesis
        by (auto simp: res track_view_def)
    qed
  next
    case None
    show ?thesis
    proof (cases "k < m_nextTrackId w")
      case True
      with key0 None have "map_of (a_tracks ?a) k = None"
        by auto
      then have "map_of (fst ?r) k = None" by (rule roiLoop_absent)
      then have n: "map_of (fst ?l) k = None"
        using lineLoop_absent [OF r] by simp
      with clean have "map_of ?m' k = None" by auto
      with later' True a(2) have "ts = []"
        by (simp add: track_view_def)
      with gone [OF n] None True show ?thesis
        by (simp add: res track_view_def)
    next
      case False
      from key0 None consider
        (absent) "map_of (a_tracks ?a) k = None" |
        (born) t1 where "map_of (a_tracks ?a) k = Some t1" "lastTripwireAlertMs t1 = 0"
        by auto
      then show ?thesis
      proof cases
        case absent
        then have "map_of (fst ?r) k = None" by (rule roiLoop_absent)
        then have n: "map_of (fst ?l) k = None"
          using lineLoop_absent [OF r] by simp
        with clean have "map_of ?m' k = None" by auto
        with later' have "gaps_ok 2000 ts"
          by (cases "k < a_nextTrackId ?a") (simp_all add: track_view_def)
        with gone [OF n] None False show ?thesis
          by (simp add: res track_view_def)
      next
        case born
        from born(1) have below: "k < a_nextTrackId ?a"
          using tracks_inv_below [OF a(1)] by simp
        from roiLoop_key [OF born(1), of w now "updatedTrackIds ?a"] born(2)
        obtain t2 where t2: "map_of (fst ?r) k = Some t2" "lastTripwireAlertMs t2 = 0" by auto
        from live [OF t2(1)] t2(2) obtain t3 where t3: "map_of (fst ?l) k = Some t3"
          "(?ts1 = [] \<and> lastTripwireAlertMs t3 = 0) \<or> (?ts1 = [now] \<and> lastTripwireAlertMs t3 = now)"
          by auto
        from clean show ?thesis
        proof
          assume "map_of ?m' k = None"
          with later' below have "ts = []"
            by (simp add: track_view_def)
          with t3(2) None False show ?thesis
            by (auto simp: res track_view_def)
        next
          assume "map_of ?m' k = map_of (fst ?l) k"
          with later' t3(1) have g: "gaps_from 2000 (lastTripwireAlertMs t3) ts"
            by (simp add: track_view_def)
          from t3(2) show ?thesis
          proof
            assume "?ts1 = [] \<and> lastTripwireAlertMs t3 = 0"
            with g None False gaps_from_ok [of 2000 0 ts] show ?thesis
              by (simp add: res track_view_def)
          next
            assume "?ts1 = [now] \<and> lastTripwireAlertMs t3 = now"
            with g None False show ?thesis
              by (simp add: res track_view_def gaps_ok_Cons)
          qed
        qed
      qed
    qed
  qed
qed

subsection \<open>Detections, tracks and the birth of a track\<close>

lemma sqrt_1024th: "sqrt (1 / 1024) = 1 / 32"
  by (rule real_sqrt_unique) (simp_all add: power2_eq_square)

lemma tracking_worker_inv: "tracks_inv (m_tracks tracking_worker) (m_nextTrackId tracking_worker)"
  by (simp add: tracking_worker_def tracks_inv_def person_track_def)

lemma empty_worker_inv: "tracks_inv (m_tracks empty_worker) (m_nextTrackId empty_worker)"
  by (simp add: empty_worker_def tracks_inv_def)

lemma empty_worker_reached:
  "fst (run CaptureWorker_init (take 8 ai_only_inputs)) =
     empty_worker\<lparr>m_frameCount := 4, m_aiFrameCounter := 4\<rparr>"
  by (simp add: ai_only_inputs_def empty_worker_def tracking_worker_def worker_eval)

lemma no_crossing_time:
  "track_tripwire_times k es = [] \<Longrightarrow> EmittedAt t (trackCrossedTripwire k l d) \<notin> set es"
  by (induction k es rule: track_tripwire_times.induct) (auto split: if_splits)

text \<open>
  C1, as stated, fails: two detections within matching distance of track 1 are both
  assigned to it in one invocation, and its centroid is written twice (its previous
  centroid is then the centroid of the first detection, not the one it had before).
\<close>

theorem C1_track_updated_twice:
  "map_of (m_tracks tracking_worker) 1 = Some person_track \<and>
   assignedIds (assignTracks tracking_worker double_detections 640 480 100330) = [1, 1] \<and>
   map_of (m_tracks (fst (updateTracks tracking_worker double_detections 640 480 100330))) 1 =
     Some (person_track\<lparr>centroid := \<lparr>xp = 1 / 2, yp = 7 / 16\<rparr>,
                         prevCentroid := \<lparr>xp = 1 / 2, yp = 1 / 2\<rparr>,
                         lastSeenMs := 100330\<rparr>)"
  by (simp add: tracking_worker_def person_track_def double_detections_def assignTracks_def
      worker_eval sqrt_1024th)

text \<open>
  C1, amended: in an invocation of updateTracks every tracked detection is assigned to
  exactly one track id (that of an existing track or of a track it creates); the set
  of updated ids holds every assigned id once, so that the ROI, loitering and
  tripwire checks run once per updated track: at most one crossing signal and at most
  one loitering signal per track id and invocation.
\<close>

theorem C1_assignment:
  assumes "tracks_inv (m_tracks w) (m_nextTrackId w)"
  shows "length (assignedIds (assignTracks w dets fw fh now)) =
           length (trackedDetections (case m_detector w of Some d \<Rightarrow> classNames d | None \<Rightarrow> [])
                     fw fh 0 dets) \<and>
         distinct (updatedTrackIds (assignTracks w dets fw fh now)) \<and>
         set (updatedTrackIds (assignTracks w dets fw fh now)) =
           set (assignedIds (assignTracks w dets fw fh now)) \<and>
         length (track_tripwire_times k (snd (updateTracks w dets fw fh now))) \<le> 1 \<and>
         length (loitering_times k (snd (updateTracks w dets fw fh now))) \<le> 1"
  using assignTracks_ids [of w dets fw fh now] updateTracks_once [OF assms, of k dets fw fh now]
  by simp

theorem C1_assignment_witness:
  "tracks_inv (m_tracks tracking_worker) (m_nextTrackId tracking_worker) \<and>
   length (assignedIds (assignTracks tracking_worker double_detections 640 480 100330)) = 2 \<and>
   updatedTrackIds (assignTracks tracking_worker double_detections 640 480 100330) = [1] \<and>
   length (track_tripwire_times 1
     (snd (updateTracks tracking_worker double_detections 640 480 100330))) \<le> 1 \<and>
   length (loitering_times 1
     (snd (updateTracks tracking_worker double_detections 640 480 100330))) \<le> 1"
proof -
  note t = C1_assignment [OF tracking_worker_inv, of double_detections 640 480 100330 1]
  have "assignedIds (assignTracks tracking_worker double_detections 640 480 100330) = [1, 1]"
    by (simp add: tracking_worker_def person_track_def double_detections_def assignTracks_def
        worker_eval sqrt_1024th)
  moreover have "updatedTrackIds (assignTracks tracking_worker double_detections 640 480 100330) = [1]"
    by (simp add: tracking_worker_def person_track_def double_detections_def assignTracks_def
        worker_eval sqrt_1024th)
  ultimately show ?thesis
    using t tracking_worker_inv by simp
qed

text \<open>
  C7, as stated, fails: the first of two close detections creates track 1, the second
  is assigned to that new track in the same invocation and moves it across the line,
  and the crossing is signalled at once.
\<close>

theorem C7_crossing_at_birth:
  "m_tracks (fst (run CaptureWorker_init (take 8 ai_only_inputs))) = [] \<and>
   m_nextTrackId (fst (run CaptureWorker_init (take 8 ai_only_inputs))) = 1 \<and>
   EmittedAt 100165 (trackCrossedTripwire 1 ''person'' ''right to left'')
     \<in> set (snd (run CaptureWorker_init
          (take 8 ai_only_inputs @ [CaptureFrame (person_frame 100165 twin_detections)])))"
  by (simp add: ai_only_inputs_def twin_detections_def worker_eval)

text \<open>
  C7, amended: a track created during an invocation (its id was not yet given out
  before) to which no further detection of that invocation is assigned produces no
  line-crossing signal in that invocation.
\<close>

theorem C7_newborn:
  assumes "tracks_inv (m_tracks w) (m_nextTrackId w)"
    and "m_nextTrackId w \<le> k"
    and "count_list (assignedIds (assignTracks w dets fw fh now)) k \<le> 1"
  shows "EmittedAt t (trackCrossedTripwire k l d) \<notin> set (snd (updateTracks w dets fw fh now))"
  using updateTracks_newborn [OF assms] by (rule no_crossing_time)

theorem C7_newborn_witness:
  "tracks_inv (m_tracks empty_worker) (m_nextTrackId empty_worker) \<and>
   m_nextTrackId empty_worker \<le> 1 \<and>
   assignedIds (assignTracks empty_worker [person_at 320 225] 640 480 100165) = [1] \<and>
   map fst (m_tracks (fst (updateTracks empty_worker [person_at 320 225] 640 480 100165))) = [1] \<and>
   EmittedAt 100165 (trackCrossedTripwire 1 ''person'' ''right to left'')
     \<notin> set (snd (updateTracks empty_worker [person_at 320 225] 640 480 100165))"
proof -
  have n: "m_nextTrackId empty_worker \<le> 1"
    by (simp add: empty_worker_def)
  have a: "assignedIds (assignTracks empty_worker [person_at 320 225] 640 480 100165) = [1]"
    by (simp add: empty_worker_def tracking_worker_def assignTracks_def worker_eval)
  then have c: "count_list (assignedIds (assignTracks empty_worker [person_at 320 225] 640 480 100165)) 1 \<le> 1"
    by simp
  have m: "map fst (m_tracks (fst (updateTracks empty_worker [person_at 320 225] 640 480 100165))) = [1]"
    by (simp add: empty_worker_def tracking_worker_def worker_eval)
  from C7_newborn [OF empty_worker_inv n c] empty_worker_inv n a m show ?thesis
    by simp
qed

subsection \<open>Debounce of the motion, ROI and tripwire events\<close>

lemma roi_times_append: "roi_times (xs @ ys) = roi_times xs @ roi_times ys"
  by (induction xs rule: roi_times.induct) simp_all

lemma tripwire_times_append: "tripwire_times (xs @ ys) = tripwire_times xs @ tripwire_times ys"
  by (induction xs rule: tripwire_times.induct) simp_all

lemma tracker_only_times:
  "\<forall>e \<in> set es. \<not> motion_path_signal (signal_of e) \<Longrightarrow>
   motion_times es = [] \<and> roi_times es = [] \<and> tripwire_times es = []"
proof (induction es)
  case Nil
  then show ?case by simp
next
  case (Cons e es)
  then have rest: "motion_times es = [] \<and> roi_times es = [] \<and> tripwire_times es = []"
    and e: "\<not> motion_path_signal (signal_of e)" by simp_all
  show ?case
  proof (cases e)
    case (Emitted s)
    with rest show ?thesis by simp
  next
    case (EmittedAt t s)
    with rest e show ?thesis by (cases s) simp_all
  qed
qed

lemma motion_only_times:
  "\<forall>e \<in> set es. motion_path_signal (signal_of e) \<Longrightarrow> track_tripwire_times k es = []"
proof (induction es)
  case Nil
  then show ?case by simp
next
  case (Cons e es)
  then have rest: "track_tripwire_times k es = []"
    and e: "motion_path_signal (signal_of e)" by simp_all
  show ?case
  proof (cases e)
    case (Emitted s)
    with rest show ?thesis by simp
  next
    case (EmittedAt t s)
    with rest e show ?thesis by (cases s) simp_all
  qed
qed

lemma processAIDetection_times:
  "motion_times (snd (processAIDetection w f)) = [] \<and>
   roi_times (snd (processAIDetection w f)) = [] \<and>
   tripwire_times (snd (processAIDetection w f)) = []"
proof (rule tracker_only_times, rule ballI)
  fix e assume "e \<in> set (snd (processAIDetection w f))"
  from processAIDetection_emits [OF this] show "\<not> motion_path_signal (signal_of e)"
    by auto
qed

lemma updateTracks_clocks:
  "m_lastMotionTime (fst (updateTracks w dets fw fh now)) = m_lastMotionTime w"
  "m_lastRoiAlertTime (fst (updateTracks w dets fw fh now)) = m_lastRoiAlertTime w"
  "m_lastTripwireAlertTime (fst (updateTracks w dets fw fh now)) = m_lastTripwireAlertTime w"
  by (simp_all add: updateTracks_alt Let_def)

lemma processAIDetection_clocks:
  "m_lastMotionTime (fst (processAIDetection w f)) = m_lastMotionTime w"
  "m_lastRoiAlertTime (fst (processAIDetection w f)) = m_lastRoiAlertTime w"
  "m_lastTripwireAlertTime (fst (processAIDetection w f)) = m_lastTripwireAlertTime w"
  by (simp_all add: processAIDetection_def case_prod_beta Let_def updateTracks_clocks
      split: option.splits)

lemma processRoiMotion_shape:
  "(processRoiMotion w f = (w, [])) \<or>
   (clock_roi f - m_lastRoiAlertTime w > 3000 \<and>
    (\<exists>s. processRoiMotion w f =
       (w\<lparr>m_lastRoiAlertTime := clock_roi f\<rparr>, [EmittedAt (clock_roi f) (roiMotionDetected s)])))"
  by (simp add: processRoiMotion_def Let_def)

lemma processTripwire_shape:
  "(snd (processTripwire w f) = [] \<and>
    m_lastTripwireAlertTime (fst (processTripwire w f)) = m_lastTripwireAlertTime w) \<or>
   (clock_tripwire f - m_lastTripwireAlertTime w > 2000 \<and>
    m_lastTripwireAlertTime (fst (processTripwire w f)) = clock_tripwire f \<and>
    (\<exists>d. snd (processTripwire w f) = [EmittedAt (clock_tripwire f) (tripwireCrossed d)]))"
  by (simp add: processTripwire_def Let_def case_prod_beta)

lemma processTripwire_frame:
  "m_lastMotionTime (fst (processTripwire w f)) = m_lastMotionTime w"
  "m_lastRoiAlertTime (fst (processTripwire w f)) = m_lastRoiAlertTime w"
  "m_tracks (fst (processTripwire w f)) = m_tracks w"
  "m_nextTrackId (fst (processTripwire w f)) = m_nextTrackId w"
  by (simp_all add: processTripwire_def Let_def case_prod_beta)

lemma processRoiMotion_frame:
  "m_lastMotionTime (fst (processRoiMotion w f)) = m_lastMotionTime w"
  "m_lastTripwireAlertTime (fst (processRoiMotion w f)) = m_lastTripwireAlertTime w"
  "m_hasTripwire (fst (processRoiMotion w f)) = m_hasTripwire w"
  "m_tracks (fst (processRoiMotion w f)) = m_tracks w"
  "m_nextTrackId (fst (processRoiMotion w f)) = m_nextTrackId w"
  using processRoiMotion_shape [of w f] by auto

lemma processRoiMotion_tripwire_times: "tripwire_times (snd (processRoiMotion w f)) = []"
  using processRoiMotion_shape [of w f] by auto

lemma processTripwire_roi_times: "roi_times (snd (processTripwire w f)) = []"
  using processTripwire_shape [of w f] by auto

lemma processMotionDetection_alt:
  "processMotionDetection w f =
     (let m = motionCheck w f;
          r = (if m_hasRoi (fst m) then processRoiMotion (fst m) f else (fst m, []));
          t = (if m_hasTripwire (fst r) then processTripwire (fst r) f else (fst r, []))
      in (fst t, snd m @ snd r @ snd t))"
  by (simp add: processMotionDetection_def motionCheck_def Let_def case_prod_beta)

lemma motionCheck_shape:
  "(motionCheck w f = (w, [])) \<or>
   (clock_motion f - m_lastMotionTime w > 2000 \<and>
    (\<exists>s. motionCheck w f =
       (w\<lparr>m_lastMotionTime := clock_motion f\<rparr>, [EmittedAt (clock_motion f) (motionDetected s)])))"
  by (simp add: motionCheck_def Let_def)

lemma motionCheck_frame:
  "m_lastRoiAlertTime (fst (motionCheck w f)) = m_lastRoiAlertTime w"
  "m_lastTripwireAlertTime (fst (motionCheck w f)) = m_lastTripwireAlertTime w"
  "m_tracks (fst (motionCheck w f)) = m_tracks w"
  "m_nextTrackId (fst (motionCheck w f)) = m_nextTrackId w"
  "roi_times (snd (motionCheck w f)) = []"
  "tripwire_times (snd (motionCheck w f)) = []"
  using motionCheck_shape [of w f] by auto

lemma processMotionDetection_motion:
  "(motion_times (snd (processMotionDetection w f)) = [] \<and>
    m_lastMotionTime (fst (processMotionDetection w f)) = m_lastMotionTime w) \<or>
   (motion_times (snd (processMotionDetection w f)) = [clock_motion f] \<and>
    clock_motion f - m_lastMotionTime w \<ge> 2000 \<and>
    m_lastMotionTime (fst (processMotionDetection w f)) = clock_motion f)"
proof -
  have "motion_times (snd (processMotionDetection w f)) = motion_times (snd (motionCheck w f))"
    "m_lastMotionTime (fst (processMotionDetection w f)) = m_lastMotionTime (fst (motionCheck w f))"
    by (simp_all add: processMotionDetection_alt Let_def motion_times_append
        processRoiMotion_motion_times processTripwire_motion_times processRoiMotion_frame
        processTripwire_frame)
  with motionCheck_shape [of w f] show ?thesis by auto
qed

lemma processMotionDetection_roi:
  "(roi_times (snd (processMotionDetection w f)) = [] \<and>
    m_lastRoiAlertTime (fst (processMotionDetection w f)) = m_lastRoiAlertTime w) \<or>
   (roi_times (snd (processMotionDetection w f)) = [clock_roi f] \<and>
    clock_roi f - m_lastRoiAlertTime w \<ge> 3000 \<and>
    m_lastRoiAlertTime (fst (processMotionDetection w f)) = clock_roi f)"
proof -
  let ?w1 = "fst (motionCheck w f)"
  have e: "roi_times (snd (processMotionDetection w f)) =
      (if m_hasRoi ?w1 then roi_times (snd (processRoiMotion ?w1 f)) else [])"
    "m_lastRoiAlertTime (fst (processMotionDetection w f)) =
      (if m_hasRoi ?w1 then m_lastRoiAlertTime (fst (processRoiMotion ?w1 f))
       else m_lastRoiAlertTime w)"
    by (simp_all add: processMotionDetection_alt Let_def roi_times_append motionCheck_frame
        processTripwire_roi_times processTripwire_frame)
  from processRoiMotion_shape [of ?w1 f] show ?thesis
    unfolding e by (auto simp: motionCheck_frame)
qed

lemma processMotionDetection_tripwire:
  "(tripwire_times (snd (processMotionDetection w f)) = [] \<and>
    m_lastTripwireAlertTime (fst (processMotionDetection w f)) = m_lastTripwireAlertTime w) \<or>
   (tripwire_times (snd (processMotionDetection w f)) = [clock_tripwire f] \<and>
    clock_tripwire f - m_lastTripwireAlertTime w \<ge> 2000 \<and>
    m_lastTripwireAlertTime (fst (processMotionDetection w f)) = clock_tripwire f)"
proof -
  let ?w1 = "fst (motionCheck w f)"
  let ?w2 = "if m_hasRoi ?w1 then fst (processRoiMotion ?w1 f) else ?w1"
  have a: "m_lastTripwireAlertTime ?w2 = m_lastTripwireAlertTime w"
    by (simp add: processRoiMotion_frame motionCheck_frame)
  have e: "tripwire_times (snd (processMotionDetection w f)) =
      (if m_hasTripwire ?w2 then tripwire_times (snd (processTripwire ?w2 f)) else [])"
    "m_lastTripwireAlertTime (fst (processMotionDetection w f)) =
      (if m_hasTripwire ?w2 then m_lastTripwireAlertTime (fst (processTripwire ?w2 f))
       else m_lastTripwireAlertTime w)"
    by (simp_all add: processMotionDetection_alt Let_def tripwire_times_append motionCheck_frame
        processRoiMotion_tripwire_times processRoiMotion_frame)
  from processTripwire_shape [of ?w2 f] a show ?thesis
    unfolding e by (cases "m_hasTripwire ?w2") auto
qed

lemma processMotionDetection_tracks:
  "m_tracks (fst (processMotionDetection w f)) = m_tracks w"
  "m_nextTrackId (fst (processMotionDetection w f)) = m_nextTrackId w"
  by (simp_all add: processMotionDetection_alt Let_def processRoiMotion_frame
      processTripwire_frame motionCheck_frame)

lemma captureFrame_idle:
  "\<not> (m_running w \<and> m_captureOpened w \<and> \<not> frame_empty f) \<Longrightarrow>
   fst (captureFrame w f) = w \<and>
   (snd (captureFrame w f) = [] \<or> (\<exists>s. snd (captureFrame w f) = [Emitted (errorOccurred s)]))"
  by (auto simp: captureFrame_def)

lemma captureFrame_motion_part:
  assumes "m_running w \<and> m_captureOpened w \<and> \<not> frame_empty f"
  shows "motion_times (snd (captureFrame w f)) =
           (if m_motionEnabled w then motion_times (snd (processMotionDetection w f)) else [])"
    and "roi_times (snd (captureFrame w f)) =
           (if m_motionEnabled w then roi_times (snd (processMotionDetection w f)) else [])"
    and "tripwire_times (snd (captureFrame w f)) =
           (if m_motionEnabled w then tripwire_times (snd (processMotionDetection w f)) else [])"
    and "m_lastMotionTime (fst (captureFrame w f)) =
           (if m_motionEnabled w then m_lastMotionTime (fst (processMotionDetection w f))
            else m_lastMotionTime w)"
    and "m_lastRoiAlertTime (fst (captureFrame w f)) =
           (if m_motionEnabled w then m_lastRoiAlertTime (fst (processMotionDetection w f))
            else m_lastRoiAlertTime w)"
    and "m_lastTripwireAlertTime (fst (captureFrame w f)) =
           (if m_motionEnabled w then m_lastTripwireAlertTime (fst (processMotionDetection w f))
            else m_lastTripwireAlertTime w)"
  using assms
  by (simp_all add: captureFrame_def Let_def case_prod_beta motion_times_append roi_times_append
      tripwire_times_append processAIDetection_times processAIDetection_clocks)

lemma captureFrame_motion_clock:
  "(motion_times (snd (captureFrame w f)) = [] \<and>
    m_lastMotionTime (fst (captureFrame w f)) = m_lastMotionTime w) \<or>
   (\<exists>t. motion_times (snd (captureFrame w f)) = [t] \<and> t - m_lastMotionTime w \<ge> 2000 \<and>
        m_lastMotionTime (fst (captureFrame w f)) = t)"
proof (cases "m_running w \<and> m_captureOpened w \<and> \<not> frame_empty f")
  case False
  from captureFrame_idle [OF this] show ?thesis by auto
next
  case True
  from processMotionDetection_motion [of w f] show ?thesis
    unfolding captureFrame_motion_part [OF True] by auto
qed

lemma captureFrame_roi_clock:
  "(roi_times (snd (captureFrame w f)) = [] \<and>
    m_lastRoiAlertTime (fst (captureFrame w f)) = m_lastRoiAlertTime w) \<or>
   (\<exists>t. roi_times (snd (captureFrame w f)) = [t] \<and> t - m_lastRoiAlertTime w \<ge> 3000 \<and>
        m_lastRoiAlertTime (fst (captureFrame w f)) = t)"
proof (cases "m_running w \<and> m_captureOpened w \<and> \<not> frame_empty f")
  case False
  from captureFrame_idle [OF this] show ?thesis by auto
next
  case True
  from processMotionDetection_roi [of w f] show ?thesis
    unfolding captureFrame_motion_part [OF True] by auto
qed

lemma captureFrame_tripwire_clock:
  "(tripwire_times (snd (captureFrame w f)) = [] \<and>
    m_lastTripwireAlertTime (fst (captureFrame w f)) = m_lastTripwireAlertTime w) \<or>
   (\<exists>t. tripwire_times (snd (captureFrame w f)) = [t] \<and> t - m_lastTripwireAlertTime w \<ge> 2000 \<and>
        m_lastTripwireAlertTime (fst (captureFrame w f)) = t)"
proof (cases "m_running w \<and> m_captureOpened w \<and> \<not> frame_empty f")
  case False
  from captureFrame_idle [OF this] show ?thesis by auto
next
  case True
  from processMotionDetection_tripwire [of w f] show ?thesis
    unfolding captureFrame_motion_part [OF True] by auto
qed

lemma step_motion_clock:
  "(motion_times (snd (step w i)) = [] \<and> m_lastMotionTime (fst (step w i)) = m_lastMotionTime w) \<or>
   (\<exists>t. motion_times (snd (step w i)) = [t] \<and> t - m_lastMotionTime w \<ge> 2000 \<and>
        m_lastMotionTime (fst (step w i)) = t)"
proof (cases i)
  case (CaptureFrame f)
  with captureFrame_motion_clock [of w f] show ?thesis by simp
qed simp_all

lemma step_roi_clock:
  "\<not> resets_roi i \<Longrightarrow>
   (roi_times (snd (step w i)) = [] \<and> m_lastRoiAlertTime (fst (step w i)) = m_lastRoiAlertTime w) \<or>
   (\<exists>t. roi_times (snd (step w i)) = [t] \<and> t - m_lastRoiAlertTime w \<ge> 3000 \<and>
        m_lastRoiAlertTime (fst (step w i)) = t)"
proof (cases i)
  case (CaptureFrame f)
  with captureFrame_roi_clock [of w f] show ?thesis by simp
qed simp_all

lemma step_tripwire_clock:
  "\<not> resets_tripwire i \<Longrightarrow>
   (tripwire_times (snd (step w i)) = [] \<and>
    m_lastTripwireAlertTime (fst (step w i)) = m_lastTripwireAlertTime w) \<or>
   (\<exists>t. tripwire_times (snd (step w i)) = [t] \<and> t - m_lastTripwireAlertTime w \<ge> 2000 \<and>
        m_lastTripwireAlertTime (fst (step w i)) = t)"
proof (cases i)
  case (CaptureFrame f)
  with captureFrame_tripwire_clock [of w f] show ?thesis by simp
qed simp_all

lemma run_Cons_emissions:
  "snd (run w (i # ins)) = snd (step w i) @ snd (run (fst (step w i)) ins)"
  by (simp add: case_prod_beta Let_def)

lemma debounce_run:
  fixes clk :: "CaptureWorker \<Rightarrow> int" and times :: "emission list \<Rightarrow> int list"
  assumes app: "\<And>xs ys. times (xs @ ys) = times xs @ times ys"
    and st: "\<And>w i. ok i \<Longrightarrow>
        (times (snd (step w i)) = [] \<and> clk (fst (step w i)) = clk w) \<or>
        (\<exists>t. times (snd (step w i)) = [t] \<and> t - clk w \<ge> d \<and> clk (fst (step w i)) = t)"
    and all: "\<forall>i \<in> set ins. ok i"
  shows "gaps_from d (clk w) (times (snd (run w ins)))"
  using all
proof (induction ins arbitrary: w)
  case Nil
  from app [of "[]" "[]"] have "times [] = []" by simp
  then show ?case by simp
next
  case (Cons i ins)
  then have ok: "ok i" and rest: "\<forall>i \<in> set ins. ok i" by simp_all
  note ih = Cons.IH [OF rest, of "fst (step w i)"]
  from st [OF ok, of w] show ?case
  proof (elim disjE conjE exE)
    assume "times (snd (step w i)) = []" "clk (fst (step w i)) = clk w"
    with ih show ?thesis unfolding run_Cons_emissions app by simp
  next
    fix t
    assume "times (snd (step w i)) = [t]" "t - clk w \<ge> d" "clk (fst (step w i)) = t"
    with ih show ?thesis unfolding run_Cons_emissions app by simp
  qed
qed

lemma processAIDetection_shape:
  "(processAIDetection w f = (w, [])) \<or>
   (\<exists>dets. processAIDetection w f =
      (fst (updateTracks w dets (cols f) (rows f) (clock_tracks f)),
       snd (updateTracks w dets (cols f) (rows f) (clock_tracks f))
         @ [Emitted (aiDetectionsReady dets)]))"
  by (simp add: processAIDetection_def case_prod_beta Let_def split: option.splits)

lemma aiStep_tracks:
  "(m_tracks (fst (aiStep w f)) = m_tracks w \<and> m_nextTrackId (fst (aiStep w f)) = m_nextTrackId w \<and>
    track_tripwire_times k (snd (aiStep w f)) = []) \<or>
   (\<exists>w0 dets. m_tracks w0 = m_tracks w \<and> m_nextTrackId w0 = m_nextTrackId w \<and>
      m_tracks (fst (aiStep w f)) =
        m_tracks (fst (updateTracks w0 dets (cols f) (rows f) (clock_tracks f))) \<and>
      m_nextTrackId (fst (aiStep w f)) =
        m_nextTrackId (fst (updateTracks w0 dets (cols f) (rows f) (clock_tracks f))) \<and>
      track_tripwire_times k (snd (aiStep w f)) =
        track_tripwire_times k (snd (updateTracks w0 dets (cols f) (rows f) (clock_tracks f))))"
proof (cases "m_aiEnabled w \<and> detectorLoaded w \<and> m_aiFrameCounter w + 1 \<ge> AI_PROCESS_INTERVAL")
  case False
  then show ?thesis by (auto simp: aiStep_def Let_def)
next
  case True
  let ?w0 = "w\<lparr>m_aiFrameCounter := 0\<rparr>"
  from True have e: "aiStep w f = processAIDetection ?w0 f"
    by (simp add: aiStep_def Let_def)
  from processAIDetection_shape [of ?w0 f] show ?thesis
  proof (elim disjE exE)
    assume "processAIDetection ?w0 f = (?w0, [])"
    then show ?thesis by (simp add: e)
  next
    fix dets
    assume "processAIDetection ?w0 f =
      (fst (updateTracks ?w0 dets (cols f) (rows f) (clock_tracks f)),
       snd (updateTracks ?w0 dets (cols f) (rows f) (clock_tracks f))
         @ [Emitted (aiDetectionsReady dets)])"
    then have "m_tracks ?w0 = m_tracks w \<and> m_nextTrackId ?w0 = m_nextTrackId w \<and>
      m_tracks (fst (aiStep w f)) =
        m_tracks (fst (updateTracks ?w0 dets (cols f) (rows f) (clock_tracks f))) \<and>
      m_nextTrackId (fst (aiStep w f)) =
        m_nextTrackId (fst (updateTracks ?w0 dets (cols f) (rows f) (clock_tracks f))) \<and>
      track_tripwire_times k (snd (aiStep w f)) =
        track_tripwire_times k (snd (updateTracks ?w0 dets (cols f) (rows f) (clock_tracks f)))"
      by (simp add: e track_tripwire_times_append)
    then show ?thesis by blast
  qed
qed

lemma processMotionDetection_no_crossing:
  "track_tripwire_times k (snd (processMotionDetection w f)) = []"
  by (rule motion_only_times) (simp add: processMotionDetection_emits)

lemma captureFrame_ai_part:
  assumes "m_running w \<and> m_captureOpened w \<and> \<not> frame_empty f"
  shows "\<exists>w1. m_tracks w1 = m_tracks w \<and> m_nextTrackId w1 = m_nextTrackId w \<and>
     m_tracks (fst (captureFrame w f)) = m_tracks (fst (aiStep w1 f)) \<and>
     m_nextTrackId (fst (captureFrame w f)) = m_nextTrackId (fst (aiStep w1 f)) \<and>
     track_tripwire_times k (snd (captureFrame w f)) = track_tripwire_times k (snd (aiStep w1 f))"
proof -
  let ?w1 = "fst (if m_motionEnabled w then processMotionDetection w f else (w, []))"
  have "m_tracks ?w1 = m_tracks w \<and> m_nextTrackId ?w1 = m_nextTrackId w"
    by (simp add: processMotionDetection_tracks)
  moreover have "m_tracks (fst (captureFrame w f)) = m_tracks (fst (aiStep ?w1 f)) \<and>
     m_nextTrackId (fst (captureFrame w f)) = m_nextTrackId (fst (aiStep ?w1 f)) \<and>
     track_tripwire_times k (snd (captureFrame w f)) = track_tripwire_times k (snd (aiStep ?w1 f))"
    using assms
    by (simp add: captureFrame_def aiStep_def Let_def case_prod_beta track_tripwire_times_append
        processMotionDetection_no_crossing)
  ultimately show ?thesis by blast
qed

lemma step_tracks:
  "(m_tracks (fst (step w i)) = m_tracks w \<and> m_nextTrackId (fst (step w i)) = m_nextTrackId w \<and>
    track_tripwire_times k (snd (step w i)) = []) \<or>
   (\<exists>w0 dets fw fh now. m_tracks w0 = m_tracks w \<and> m_nextTrackId w0 = m_nextTrackId w \<and>
      m_tracks (fst (step w i)) = m_tracks (fst (updateTracks w0 dets fw fh now)) \<and>
      m_nextTrackId (fst (step w i)) = m_nextTrackId (fst (updateTracks w0 dets fw fh now)) \<and>
      track_tripwire_times k (snd (step w i)) =
        track_tripwire_times k (snd (updateTracks w0 dets fw fh now)))"
proof (cases i)
  case (CaptureFrame f)
  show ?thesis
  proof (cases "m_running w \<and> m_captureOpened w \<and> \<not> frame_empty f")
    case False
    from captureFrame_idle [OF this] show ?thesis by (auto simp: CaptureFrame)
  next
    case True
    from captureFrame_ai_part [OF True, of k] obtain w1 where w1:
      "m_tracks w1 = m_tracks w" "m_nextTrackId w1 = m_nextTrackId w"
      "m_tracks (fst (captureFrame w f)) = m_tracks (fst (aiStep w1 f))"
      "m_nextTrackId (fst (captureFrame w f)) = m_nextTrackId (fst (aiStep w1 f))"
      "track_tripwire_times k (snd (captureFrame w f)) = track_tripwire_times k (snd (aiStep w1 f))"
      by blast
    from aiStep_tracks [of w1 f k] show ?thesis
    proof (elim disjE exE conjE)
      assume "m_tracks (fst (aiStep w1 f)) = m_tracks w1"
        "m_nextTrackId (fst (aiStep w1 f)) = m_nextTrackId w1"
        "track_tripwire_times k (snd (aiStep w1 f)) = []"
      with w1 show ?thesis by (simp add: CaptureFrame)
    next
      fix w0 dets
      assume "m_tracks w0 = m_tracks w1" "m_nextTrackId w0 = m_nextTrackId w1"
        "m_tracks (fst (aiStep w1 f)) =
          m_tracks (fst (updateTracks w0 dets (cols f) (rows f) (clock_tracks f)))"
        "m_nextTrackId (fst (aiStep w1 f)) =
          m_nextTrackId (fst (updateTracks w0 dets (cols f) (rows f) (clock_tracks f)))"
        "track_tripwire_times k (snd (aiStep w1 f)) =
          track_tripwire_times k (snd (updateTracks w0 dets (cols f) (rows f) (clock_tracks f)))"
      with w1 have "m_tracks w0 = m_tracks w \<and> m_nextTrackId w0 = m_nextTrackId w \<and>
        m_tracks (fst (step w i)) =
          m_tracks (fst (updateTracks w0 dets (cols f) (rows f) (clock_tracks f))) \<and>
        m_nextTrackId (fst (step w i)) =
          m_nextTrackId (fst (updateTracks w0 dets (cols f) (rows f) (clock_tracks f))) \<and>
        track_tripwire_times k (snd (step w i)) =
          track_tripwire_times k (snd (updateTracks w0 dets (cols f) (rows f) (clock_tracks f)))"
        by (simp add: CaptureFrame)
      then show ?thesis by blast
    qed
  qed
qed simp_all

lemma step_track_view:
  assumes "tracks_inv (m_tracks w) (m_nextTrackId w)"
  shows "tracks_inv (m_tracks (fst (step w i))) (m_nextTrackId (fst (step w i)))"
    and "track_view (m_tracks (fst (step w i))) (m_nextTrackId (fst (step w i))) k ts \<Longrightarrow>
         track_view (m_tracks w) (m_nextTrackId w) k (track_tripwire_times k (snd (step w i)) @ ts)"
proof -
  from step_tracks [of w i k]
  have "tracks_inv (m_tracks (fst (step w i))) (m_nextTrackId (fst (step w i))) \<and>
    (track_view (m_tracks (fst (step w i))) (m_nextTrackId (fst (step w i))) k ts \<longrightarrow>
     track_view (m_tracks w) (m_nextTrackId w) k (track_tripwire_times k (snd (step w i)) @ ts))"
  proof (elim disjE exE conjE)
    assume "m_tracks (fst (step w i)) = m_tracks w"
      "m_nextTrackId (fst (step w i)) = m_nextTrackId w"
      "track_tripwire_times k (snd (step w i)) = []"
    with assms show ?thesis by simp
  next
    fix w0 dets fw fh now
    assume e: "m_tracks w0 = m_tracks w" "m_nextTrackId w0 = m_nextTrackId w"
      "m_tracks (fst (step w i)) = m_tracks (fst (updateTracks w0 dets fw fh now))"
      "m_nextTrackId (fst (step w i)) = m_nextTrackId (fst (updateTracks w0 dets fw fh now))"
      "track_tripwire_times k (snd (step w i)) =
        track_tripwire_times k (snd (updateTracks w0 dets fw fh now))"
    from assms e(1,2) have inv0: "tracks_inv (m_tracks w0) (m_nextTrackId w0)" by simp
    from updateTracks_inv(1) [OF inv0, of dets fw fh now] updateTracks_view [OF inv0, of dets fw fh now k ts]
    show ?thesis
      unfolding e(3,4,5) unfolding e(1,2) by blast
  qed
  then show "tracks_inv (m_tracks (fst (step w i))) (m_nextTrackId (fst (step w i)))"
    and "track_view (m_tracks (fst (step w i))) (m_nextTrackId (fst (step w i))) k ts \<Longrightarrow>
         track_view (m_tracks w) (m_nextTrackId w) k (track_tripwire_times k (snd (step w i)) @ ts)"
    by blast+
qed

lemma run_track_view:
  "tracks_inv (m_tracks w) (m_nextTrackId w) \<Longrightarrow>
   track_view (m_tracks w) (m_nextTrackId w) k (track_tripwire_times k (snd (run w ins)))"
proof (induction ins arbitrary: w)
  case Nil
  then show ?case by (simp add: track_view_def split: option.splits)
next
  case (Cons i ins)
  note s = step_track_view [OF Cons.prems, of i]
  from s(2) [OF Cons.IH [OF s(1)]] show ?case
    unfolding run_Cons_emissions track_tripwire_times_append .
qed

lemma track_view_ok: "track_view m n k ts \<Longrightarrow> gaps_ok 2000 ts"
  by (auto simp: track_view_def gaps_from_ok split: option.splits if_splits)

text \<open>
  C3, as stated, fails for the ROI events: setRoiPolygon sets the debounce clock of the
  ROI back to 0, so two ROI-motion events 100 ms apart are emitted when the polygon
  is set again between them. (setTripwire does the same to the mask tripwire.)
\<close>

theorem C3_roi_reset:
  "roi_times (snd (run CaptureWorker_init roi_reset_inputs)) = [10000, 10100] \<and>
   \<not> gaps_ok 3000 (roi_times (snd (run CaptureWorker_init roi_reset_inputs)))"
  by (simp add: roi_reset_inputs_def roi_frame_def square_roi_def worker_eval)

text \<open>
  C3, amended: along any run of a worker, two consecutive motion events are at least
  2000 ms apart, and so are two consecutive per-track tripwire events of the same track
  id (in a worker whose track map is well formed, as that of a new worker is); two
  consecutive ROI-motion events are at least 3000 ms apart as long as the ROI is not
  set or cleared, and two consecutive mask-centroid tripwire events at least 2000 ms
  apart as long as the tripwire is not set or cleared.
\<close>

theorem C3_gaps:
  "gaps_ok 2000 (motion_times (snd (run w ins))) \<and>
   ((\<forall>i \<in> set ins. \<not> resets_roi i) \<longrightarrow> gaps_ok 3000 (roi_times (snd (run w ins)))) \<and>
   ((\<forall>i \<in> set ins. \<not> resets_tripwire i) \<longrightarrow> gaps_ok 2000 (tripwire_times (snd (run w ins)))) \<and>
   (tracks_inv (m_tracks w) (m_nextTrackId w) \<longrightarrow>
      gaps_ok 2000 (track_tripwire_times k (snd (run w ins))))"
proof -
  have "gaps_from 2000 (m_lastMotionTime w) (motion_times (snd (run w ins)))"
    by (rule debounce_run [where ok = "\<lambda>i. True"])
      (rule motion_times_append, rule step_motion_clock, simp)
  then have A: "gaps_ok 2000 (motion_times (snd (run w ins)))"
    by (rule gaps_from_ok)
  have B: "(\<forall>i \<in> set ins. \<not> resets_roi i) \<longrightarrow> gaps_ok 3000 (roi_times (snd (run w ins)))"
  proof
    assume a: "\<forall>i \<in> set ins. \<not> resets_roi i"
    have "gaps_from 3000 (m_lastRoiAlertTime w) (roi_times (snd (run w ins)))"
      by (rule debounce_run [where ok = "\<lambda>i. \<not> resets_roi i"])
        (rule roi_times_append, erule step_roi_clock, rule a)
    then show "gaps_ok 3000 (roi_times (snd (run w ins)))"
      by (rule gaps_from_ok)
  qed
  have C: "(\<forall>i \<in> set ins. \<not> resets_tripwire i) \<longrightarrow> gaps_ok 2000 (tripwire_times (snd (run w ins)))"
  proof
    assume a: "\<forall>i \<in> set ins. \<not> resets_tripwire i"
    have "gaps_from 2000 (m_lastTripwireAlertTime w) (tripwire_times (snd (run w ins)))"
      by (rule debounce_run [where ok = "\<lambda>i. \<not> resets_tripwire i"])
        (rule tripwire_times_append, erule step_tripwire_clock, rule a)
    then show "gaps_ok 2000 (tripwire_times (snd (run w ins)))"
      by (rule gaps_from_ok)
  qed
  have D: "tracks_inv (m_tracks w) (m_nextTrackId w) \<longrightarrow>
      gaps_ok 2000 (track_tripwire_times k (snd (run w ins)))"
    using run_track_view track_view_ok by blast
  from A B C D show ?thesis by blast
qed

theorem C3_gaps_witness:
  "motion_times (snd (run CaptureWorker_init motion_inputs)) = [10000, 12500] \<and>
   gaps_ok 2000 (motion_times (snd (run CaptureWorker_init motion_inputs))) \<and>
   filter resets_roi motion_inputs = [] \<and>
   gaps_ok 3000 (roi_times (snd (run CaptureWorker_init motion_inputs))) \<and>
   filter resets_tripwire motion_inputs = [] \<and>
   gaps_ok 2000 (tripwire_times (snd (run CaptureWorker_init motion_inputs))) \<and>
   tracks_inv (m_tracks CaptureWorker_init) (m_nextTrackId CaptureWorker_init) \<and>
   gaps_ok 2000 (track_tripwire_times 1 (snd (run CaptureWorker_init ai_only_inputs))) \<and>
   track_tripwire_times 1 (snd (run CaptureWorker_init ai_only_inputs)) = [100330]"
proof -
  note m = C3_gaps [of CaptureWorker_init motion_inputs 1]
  note a = C3_gaps [of CaptureWorker_init ai_only_inputs 1]
  have r: "\<forall>i \<in> set motion_inputs. \<not> resets_roi i"
    and t: "\<forall>i \<in> set motion_inputs. \<not> resets_tripwire i"
    by (simp_all add: motion_inputs_def)
  have f: "filter resets_roi motion_inputs = []" "filter resets_tripwire motion_inputs = []"
    by (simp_all add: motion_inputs_def)
  have i: "tracks_inv (m_tracks CaptureWorker_init) (m_nextTrackId CaptureWorker_init)"
    by (simp add: CaptureWorker_init_def tracks_inv_def)
  have e: "motion_times (snd (run CaptureWorker_init motion_inputs)) = [10000, 12500]"
    by (simp add: motion_inputs_def motion_frame_def worker_eval)
  have c: "track_tripwire_times 1 (snd (run CaptureWorker_init ai_only_inputs)) = [100330]"
    by (simp add: ai_only_inputs_def worker_eval)
  from m r t a i f e c show ?thesis by blast
qed

subsection \<open>The assignment of every detection, and the eviction\<close>

lemma assignAll_append:
  "assignAll now a (xs @ ys) = assignAll now (assignAll now a xs) ys"
  by (induction xs arbitrary: a) simp_all

lemma assignAll_take_Suc:
  "j < length dwcs \<Longrightarrow>
   assignAll now a (take (Suc j) dwcs) = assignDetection now (assignAll now a (take j dwcs)) (dwcs ! j)"
  by (simp add: take_Suc_conv_app_nth assignAll_append)

lemma assignedIds_assignDetection:
  "\<exists>k. assignedIds (assignDetection now a dwc) = assignedIds a @ [k]"
  by (simp add: assignDetection_def Let_def case_prod_beta)

lemma assignedIds_assignAll:
  "\<exists>ks. assignedIds (assignAll now a dwcs) = assignedIds a @ ks \<and> length ks = length dwcs"
proof (induction dwcs arbitrary: a)
  case Nil
  then show ?case by simp
next
  case (Cons dwc dwcs)
  from assignedIds_assignDetection [of now a dwc] obtain k where
    k: "assignedIds (assignDetection now a dwc) = assignedIds a @ [k]" by blast
  from Cons.IH [of "assignDetection now a dwc"] obtain ks where
    ks: "assignedIds (assignAll now (assignDetection now a dwc) dwcs)
           = assignedIds (assignDetection now a dwc) @ ks" "length ks = length dwcs" by blast
  have "assignedIds (assignAll now a (dwc # dwcs)) = assignedIds a @ (k # ks) \<and>
        length (k # ks) = length (dwc # dwcs)"
    using k ks by simp
  then show ?case by blast
qed

lemma assignedIds_nth:
  assumes "j < length dwcs"
  shows "assignedIds (assignAll now a dwcs) ! (length (assignedIds a) + j) =
         last (assignedIds (assignAll now a (take (Suc j) dwcs)))"
proof -
  let ?b = "assignAll now a (take j dwcs)"
  let ?c = "assignAll now a (take (Suc j) dwcs)"
  from assignedIds_assignAll [of now a "take j dwcs"] assms obtain ks where
    ks: "assignedIds ?b = assignedIds a @ ks" "length ks = j" by auto
  from assignedIds_assignDetection [of now ?b "dwcs ! j"] obtain k where
    k: "assignedIds ?c = assignedIds ?b @ [k]"
    unfolding assignAll_take_Suc [OF assms] by blast
  have "assignAll now a dwcs = assignAll now ?c (drop (Suc j) dwcs)"
    using assignAll_append [of now a "take (Suc j) dwcs" "drop (Suc j) dwcs"] by simp
  with assignedIds_assignAll [of now ?c "drop (Suc j) dwcs"] obtain ls where
    "assignedIds (assignAll now a dwcs) = assignedIds ?c @ ls" by auto
  then have "assignedIds (assignAll now a dwcs) = (assignedIds a @ ks) @ k # ls"
    by (simp add: k ks)
  then have "assignedIds (assignAll now a dwcs) ! (length (assignedIds a) + j) = k"
    using ks(2) by (simp add: nth_append)
  then show ?thesis by (simp add: k)
qed

lemma assignDetection_matched:
  assumes inv: "tracks_inv (a_tracks a) (a_nextTrackId a)"
    and m: "map_of (a_tracks a) (last (assignedIds (assignDetection now a dwc))) = Some track"
  shows "trackDistance (dwc_centroid dwc) track < MAX_TRACK_DISTANCE"
proof -
  let ?r = "closestTrack (dwc_centroid dwc) (a_tracks a) (- 1, MAX_TRACK_DISTANCE)"
  from inv have s: "sorted_wrt (<) (map fst (a_tracks a))" by (simp add: tracks_inv_def)
  have hit: "fst ?r \<ge> 0"
  proof (rule ccontr)
    assume "\<not> fst ?r \<ge> 0"
    from assignDetection_miss [OF this, of now]
    have "last (assignedIds (assignDetection now a dwc)) = a_nextTrackId a" by simp
    with m tracks_inv_absent [OF inv, of "a_nextTrackId a"] show False by simp
  qed
  obtain t where t: "(fst ?r, t) \<in> set (a_tracks a)"
      "trackDistance (dwc_centroid dwc) t = snd ?r" "snd ?r < MAX_TRACK_DISTANCE"
    using closestTrack_hit [of "dwc_centroid dwc" "a_tracks a" "fst ?r" "snd ?r"] hit by auto
  have "last (assignedIds (assignDetection now a dwc)) = fst ?r"
    by (simp add: assignDetection_hit [OF hit] Let_def)
  moreover have "map_of (a_tracks a) (fst ?r) = Some t"
    using t(1) s by (simp add: map_of_sorted_iff)
  ultimately have "track = t" using m by simp
  with t(2,3) show ?thesis by simp
qed

lemma assignDetection_new:
  assumes inv: "tracks_inv (a_tracks a) (a_nextTrackId a)"
    and far: "\<forall>kv \<in> set (a_tracks a). MAX_TRACK_DISTANCE \<le> trackDistance (dwc_centroid dwc) (snd kv)"
  shows "last (assignedIds (assignDetection now a dwc)) = a_nextTrackId a \<and>
         map_of (a_tracks a) (a_nextTrackId a) = None \<and>
         a_nextTrackId (assignDetection now a dwc) = a_nextTrackId a + 1 \<and>
         (\<exists>track. map_of (a_tracks (assignDetection now a dwc)) (a_nextTrackId a) = Some track \<and>
                  idT track = a_nextTrackId a \<and> centroid track = dwc_centroid dwc \<and>
                  firstSeenMs track = now \<and> lastSeenMs track = now)"
proof -
  let ?r = "closestTrack (dwc_centroid dwc) (a_tracks a) (- 1, MAX_TRACK_DISTANCE)"
  from far have "?r = (- 1, MAX_TRACK_DISTANCE)"
    by (intro closestTrack_none) simp
  then have miss: "\<not> fst ?r \<ge> 0" by simp
  show ?thesis
    using tracks_inv_absent [OF inv, of "a_nextTrackId a"]
    by (simp add: assignDetection_miss [OF miss] map_of_qmap_insert)
qed

lemma trackDistance_bound:
  assumes "trackDistance c track < MAX_TRACK_DISTANCE"
  shows "centroidDistance c track < 1 / 10 + 1 / 10 ^ 16"
  using assms computed_distance_bound [of "xp (centroid track) - xp c" "yp (centroid track) - yp c"]
  by (simp add: trackDistance_def centroidDistance_def MAX_TRACK_DISTANCE_def Let_def)

lemma assignTracks_trackedOf:
  "assignTracks w dets fw fh now =
     assignAll now
       \<lparr>a_tracks = m_tracks w, a_nextTrackId = m_nextTrackId w,
        updatedTrackIds = [], assignedIds = []\<rparr> (trackedOf w dets fw fh)"
  by (simp add: assignTracks_def trackedOf_def)

lemma assignFirst_inv:
  assumes "tracks_inv (m_tracks w) (m_nextTrackId w)"
  shows "tracks_inv (a_tracks (assignFirst w dets fw fh now j))
           (a_nextTrackId (assignFirst w dets fw fh now j))"
  using assms assignAll_inv [of "\<lparr>a_tracks = m_tracks w, a_nextTrackId = m_nextTrackId w,
        updatedTrackIds = [], assignedIds = []\<rparr>" now "take j (trackedOf w dets fw fh)"]
  by (simp add: assignFirst_def)

lemma assignFirst_Suc:
  "j < length (trackedOf w dets fw fh) \<Longrightarrow>
   assignFirst w dets fw fh now (Suc j) =
     assignDetection now (assignFirst w dets fw fh now j) (trackedOf w dets fw fh ! j)"
  by (simp add: assignFirst_def assignAll_take_Suc)

lemma assignTracks_nth:
  "j < length (trackedOf w dets fw fh) \<Longrightarrow>
   assignedIds (assignTracks w dets fw fh now) ! j =
     last (assignedIds (assignFirst w dets fw fh now (Suc j)))"
  using assignedIds_nth [of j "trackedOf w dets fw fh" now
      "\<lparr>a_tracks = m_tracks w, a_nextTrackId = m_nextTrackId w,
        updatedTrackIds = [], assignedIds = []\<rparr>"]
  by (simp add: assignTracks_trackedOf assignFirst_def)

lemma updateTracks_fresh:
  "\<forall>kv \<in> set (m_tracks (fst (updateTracks w dets fw fh now))). now - lastSeenMs (snd kv) \<le> 2000"
  using cleanupStaleTracks_mem
  by (auto simp: updateTracks_def Let_def case_prod_beta TRACK_TIMEOUT_MS_def)

subsection \<open>A match at the boundary\<close>

lemma double_tx: "double (137 / 800) = 1542482872374395 / 9007199254740992"
  using double_near [of "-3" "137 / 800" 6169931489497580]
  by (simp add: power_int_minus)

lemma double_ty: "double (17 / 120) = 2552039788843281 / 18014398509481984"
  using double_near [of "-3" "17 / 120" 5104079577686562]
  by (simp add: power_int_minus)

lemma double_cx: "double (89 / 800) = 8016407336719483 / 72057594037927936"
  using double_near [of "-4" "89 / 800" 8016407336719483]
  by (simp add: power_int_minus)

lemma double_cy: "double (37 / 600) = 8887103264677779 / 144115188075855872"
  using double_near [of "-5" "37 / 600" 8887103264677779]
  by (simp add: power_int_minus)

lemma double_dx: "double (4323455642275677 / 72057594037927936) = 4323455642275677 / 72057594037927936"
  using double_near [of "-5" "4323455642275677 / 72057594037927936" 8646911284551354]
  by (simp add: power_int_minus)

lemma double_dy: "double (11529215046068469 / 144115188075855872) = 2882303761517117 / 36028797018963968"
  using double_eval [of "-4" "11529215046068469 / 144115188075855872"]
  by (simp add: power_int_minus round_even_def)

lemma double_sx: "double (18692268690725386726115265808329 / 5192296858534827628530496329220096) = 8301034833169301 / 2305843009213693952"
  using double_near [of "-9" "18692268690725386726115265808329 / 5192296858534827628530496329220096" 8301034833169301]
  by (simp add: power_int_minus)

lemma double_sy: "double (8307674973655721669221483991689 / 1298074214633706907132624082305024) = 3689348814741909 / 576460752303423488"
  using double_near [of "-8" "8307674973655721669221483991689 / 1298074214633706907132624082305024" 7378697629483818]
  by (simp add: power_int_minus)

lemma double_s: "double (23058430092136937 / 2305843009213693952) = 2882303761517117 / 288230376151711744"
  using double_near [of "-7" "23058430092136937 / 2305843009213693952" 5764607523034234]
  by (simp add: power_int_minus)

lemma double_d: "double (sqrt (2882303761517117 / 288230376151711744)) = 7205759403792793 / 72057594037927936"
  using double_sqrt [of 7205759403792793 "-4" "2882303761517117 / 288230376151711744"]
  by (simp add: power_int_minus power2_eq_square)

lemma boundary_track_value:
  "boundary_track =
     \<lparr>idT = 1, label = ''person'',
      centroid = \<lparr>xp = 1542482872374395 / 9007199254740992,
                  yp = 2552039788843281 / 18014398509481984\<rparr>,
      prevCentroid = \<lparr>xp = 1542482872374395 / 9007199254740992,
                      yp = 2552039788843281 / 18014398509481984\<rparr>,
      firstSeenMs = 1000, lastSeenMs = 1000, insideRoi = False, loiterAlertSent = False,
      lastTripwireAlertMs = 0, enteredRoiMs = 0\<rparr>"
  by (simp add: boundary_track_def double_tx double_ty)

lemma boundary_centroid_value:
  "boundary_centroid =
     \<lparr>xp = 8016407336719483 / 72057594037927936, yp = 8887103264677779 / 144115188075855872\<rparr>"
  by (simp add: boundary_centroid_def double_cx double_cy)

lemma boundary_worker_eq:
  "boundary_worker = empty_worker\<lparr>m_tracks := [(1, boundary_track)], m_nextTrackId := 2\<rparr>"
  by (simp add: boundary_worker_def boundary_track_value empty_worker_def tracking_worker_def
      worker_eval double_tx double_ty)

lemma boundary_detection:
  "trackedOf boundary_worker [person_at 89 37] 800 600 =
     [\<lparr>dwc_centroid = boundary_centroid, dwc_detectionIndex = 0, dwc_label = ''person''\<rparr>]"
  by (simp add: trackedOf_def boundary_worker_eq empty_worker_def tracking_worker_def
      CaptureWorker_init_def coco_def person_at_def trackedClasses_def Let_def
      boundary_centroid_def)

lemma boundary_distance:
  "trackDistance boundary_centroid boundary_track = 7205759403792793 / 72057594037927936"
  by (simp add: boundary_track_value boundary_centroid_value trackDistance_def Let_def
      double_dx double_dy double_sx double_sy double_s double_d)

lemma closestTrack_single:
  "closestTrack c [(k, t)] (b, bd) = (if trackDistance c t < bd then (k, trackDistance c t) else (b, bd))"
  by (simp add: trackDistance_def Let_def)

lemma boundary_closest:
  "closestTrack boundary_centroid [(1, boundary_track)] (- 1, MAX_TRACK_DISTANCE) =
     (1, 7205759403792793 / 72057594037927936)"
  unfolding closestTrack_single boundary_distance MAX_TRACK_DISTANCE_def double_tenth
  by simp

lemma boundary_assigned:
  "assignTracks boundary_worker [person_at 89 37] 800 600 1033 =
     \<lparr>a_tracks = [(1, boundary_track\<lparr>prevCentroid := centroid boundary_track,
                                     centroid := boundary_centroid, lastSeenMs := 1033\<rparr>)],
      a_nextTrackId = 2, updatedTrackIds = [1], assignedIds = [1]\<rparr>"
  unfolding assignTracks_trackedOf boundary_detection
  by (simp del: closestTrack.simps
      add: boundary_worker_eq assignDetection_def boundary_closest qmap_at_def qset_insert_def)

lemma sqrt_100th: "sqrt (1 / 100) = 1 / 10"
  by (rule real_sqrt_unique) (simp_all add: power2_eq_square)

text \<open>
  C5, as stated, fails: the detection at pixel (89, 37) is matched to the track created
  at pixel (137, 85), and no track is created for it, although the normalised distance
  of the two box centres is exactly 0.1 and the Euclidean distance of the two stored
  centroids is above 0.1. The distance the loop computes in double arithmetic is
  0.09999999999999999, which is below the double 0.1.
\<close>

theorem C5_matched_at_a_tenth:
  "m_tracks boundary_worker = [(1, boundary_track)] \<and>
   map dwc_centroid (trackedOf boundary_worker [person_at 89 37] 800 600) = [boundary_centroid] \<and>
   assignedIds (assignTracks boundary_worker [person_at 89 37] 800 600 1033) = [1] \<and>
   a_nextTrackId (assignTracks boundary_worker [person_at 89 37] 800 600 1033) =
     m_nextTrackId boundary_worker \<and>
   sqrt ((137 / 800 - 89 / 800) * (137 / 800 - 89 / 800) +
         (85 / 600 - 37 / 600) * (85 / 600 - 37 / 600)) = 1 / 10 \<and>
   1 / 10 \<le> centroidDistance boundary_centroid boundary_track \<and>
   trackDistance boundary_centroid boundary_track = 7205759403792793 / 72057594037927936"
proof -
  have "1 / 10 \<le> centroidDistance boundary_centroid boundary_track"
    unfolding centroidDistance_def boundary_track_value boundary_centroid_value
    by (rule real_le_rsqrt) (simp add: power2_eq_square)
  moreover have "m_tracks boundary_worker = [(1, boundary_track)]"
    "m_nextTrackId boundary_worker = 2"
    by (simp_all add: boundary_worker_eq)
  ultimately show ?thesis
    by (simp add: boundary_detection boundary_assigned boundary_distance sqrt_100th)
qed

text \<open>
  C5, amended: in an invocation of updateTracks on a worker whose track map is well
  formed, take the \<open>j\<close>-th tracked detection and the state of the assignment loop just
  before it. If the id the detection is assigned to is that of a track already in the
  map, then the distance the loop computes for that track, in double arithmetic, is
  below \<^verbatim>\<open>MAX_TRACK_DISTANCE\<close>, the double nearest to 0.1, and the Euclidean distance
  of the two centroids is below \<open>0.1 + 1 / 10 ^ 16\<close>. If the computed distance of every
  track in the map is at least \<^verbatim>\<open>MAX_TRACK_DISTANCE\<close>, and in particular if every track
  is at a Euclidean distance of at least \<open>0.1 + 1 / 10 ^ 16\<close>, the detection is assigned
  to the next id, under which no track was stored, and the loop stores a new track
  there, with the detection's centroid and the invocation's time. The loop starts
  from the map and the next id of the worker and leaves its next id to the worker.
  After the invocation every track left in the map was seen at most 2000 ms before the
  invocation's time.
\<close>

theorem C5_matching_and_eviction:
  assumes "tracks_inv (m_tracks w) (m_nextTrackId w)"
    and "j < length (trackedOf w dets fw fh)"
  shows
   "(\<forall>track. map_of (a_tracks (assignFirst w dets fw fh now j))
               (assignedIds (assignTracks w dets fw fh now) ! j) = Some track \<longrightarrow>
       trackDistance (dwc_centroid (trackedOf w dets fw fh ! j)) track < MAX_TRACK_DISTANCE \<and>
       centroidDistance (dwc_centroid (trackedOf w dets fw fh ! j)) track < 1 / 10 + 1 / 10 ^ 16) \<and>
    ((\<forall>kv \<in> set (a_tracks (assignFirst w dets fw fh now j)).
        MAX_TRACK_DISTANCE \<le> trackDistance (dwc_centroid (trackedOf w dets fw fh ! j)) (snd kv)) \<or>
     (\<forall>kv \<in> set (a_tracks (assignFirst w dets fw fh now j)).
        1 / 10 + 1 / 10 ^ 16 \<le> centroidDistance (dwc_centroid (trackedOf w dets fw fh ! j)) (snd kv)) \<longrightarrow>
       assignedIds (assignTracks w dets fw fh now) ! j =
         a_nextTrackId (assignFirst w dets fw fh now j) \<and>
       map_of (a_tracks (assignFirst w dets fw fh now j))
         (a_nextTrackId (assignFirst w dets fw fh now j)) = None \<and>
       a_nextTrackId (assignFirst w dets fw fh now (Suc j)) =
         a_nextTrackId (assignFirst w dets fw fh now j) + 1 \<and>
       (\<exists>track. map_of (a_tracks (assignFirst w dets fw fh now (Suc j)))
                  (a_nextTrackId (assignFirst w dets fw fh now j)) = Some track \<and>
                idT track = a_nextTrackId (assignFirst w dets fw fh now j) \<and>
                centroid track = dwc_centroid (trackedOf w dets fw fh ! j) \<and>
                firstSeenMs track = now \<and> lastSeenMs track = now)) \<and>
    MAX_TRACK_DISTANCE = 3602879701896397 / 36028797018963968 \<and>
    a_tracks (assignFirst w dets fw fh now 0) = m_tracks w \<and>
    a_nextTrackId (assignFirst w dets fw fh now 0) = m_nextTrackId w \<and>
    m_nextTrackId (fst (updateTracks w dets fw fh now)) =
      a_nextTrackId (assignFirst w dets fw fh now (length (trackedOf w dets fw fh))) \<and>
    (\<forall>kv \<in> set (m_tracks (fst (updateTracks w dets fw fh now))).
       now - lastSeenMs (snd kv) \<le> 2000)"
proof -
  let ?a = "assignFirst w dets fw fh now j"
  let ?dwc = "trackedOf w dets fw fh ! j"
  let ?k = "assignedIds (assignTracks w dets fw fh now) ! j"
  note inv = assignFirst_inv [OF assms(1), of dets fw fh now j]
  note suc = assignFirst_Suc [OF assms(2), of now]
  have k: "?k = last (assignedIds (assignDetection now ?a ?dwc))"
    using assignTracks_nth [OF assms(2), of now] by (simp add: suc)
  have A: "\<forall>track. map_of (a_tracks ?a) ?k = Some track \<longrightarrow>
       trackDistance (dwc_centroid ?dwc) track < MAX_TRACK_DISTANCE \<and>
       centroidDistance (dwc_centroid ?dwc) track < 1 / 10 + 1 / 10 ^ 16"
  proof (intro allI impI)
    fix track
    assume "map_of (a_tracks ?a) ?k = Some track"
    then have "trackDistance (dwc_centroid ?dwc) track < MAX_TRACK_DISTANCE"
      unfolding k by (rule assignDetection_matched [OF inv])
    then show "trackDistance (dwc_centroid ?dwc) track < MAX_TRACK_DISTANCE \<and>
       centroidDistance (dwc_centroid ?dwc) track < 1 / 10 + 1 / 10 ^ 16"
      using trackDistance_bound by blast
  qed
  have B: "(\<forall>kv \<in> set (a_tracks ?a).
        MAX_TRACK_DISTANCE \<le> trackDistance (dwc_centroid ?dwc) (snd kv)) \<or>
     (\<forall>kv \<in> set (a_tracks ?a).
        1 / 10 + 1 / 10 ^ 16 \<le> centroidDistance (dwc_centroid ?dwc) (snd kv)) \<longrightarrow>
       ?k = a_nextTrackId ?a \<and>
       map_of (a_tracks ?a) (a_nextTrackId ?a) = None \<and>
       a_nextTrackId (assignFirst w dets fw fh now (Suc j)) = a_nextTrackId ?a + 1 \<and>
       (\<exists>track. map_of (a_tracks (assignFirst w dets fw fh now (Suc j)))
                  (a_nextTrackId ?a) = Some track \<and>
                idT track = a_nextTrackId ?a \<and>
                centroid track = dwc_centroid ?dwc \<and>
                firstSeenMs track = now \<and> lastSeenMs track = now)"
  proof
    assume "(\<forall>kv \<in> set (a_tracks ?a).
        MAX_TRACK_DISTANCE \<le> trackDistance (dwc_centroid ?dwc) (snd kv)) \<or>
     (\<forall>kv \<in> set (a_tracks ?a).
        1 / 10 + 1 / 10 ^ 16 \<le> centroidDistance (dwc_centroid ?dwc) (snd kv))"
    then have far: "\<forall>kv \<in> set (a_tracks ?a).
        MAX_TRACK_DISTANCE \<le> trackDistance (dwc_centroid ?dwc) (snd kv)"
      using trackDistance_bound by (meson not_le)
    from assignDetection_new [OF inv far, of now]
    show "?k = a_nextTrackId ?a \<and>
       map_of (a_tracks ?a) (a_nextTrackId ?a) = None \<and>
       a_nextTrackId (assignFirst w dets fw fh now (Suc j)) = a_nextTrackId ?a + 1 \<and>
       (\<exists>track. map_of (a_tracks (assignFirst w dets fw fh now (Suc j)))
                  (a_nextTrackId ?a) = Some track \<and>
                idT track = a_nextTrackId ?a \<and>
                centroid track = dwc_centroid ?dwc \<and>
                firstSeenMs track = now \<and> lastSeenMs track = now)"
      unfolding k suc by simp
  qed
  have C: "MAX_TRACK_DISTANCE = 3602879701896397 / 36028797018963968"
    by (simp add: MAX_TRACK_DISTANCE_def double_tenth)
  have D: "a_tracks (assignFirst w dets fw fh now 0) = m_tracks w \<and>
    a_nextTrackId (assignFirst w dets fw fh now 0) = m_nextTrackId w \<and>
    m_nextTrackId (fst (updateTracks w dets fw fh now)) =
      a_nextTrackId (assignFirst w dets fw fh now (length (trackedOf w dets fw fh)))"
    by (simp add: assignFirst_def updateTracks_alt assignTracks_trackedOf Let_def)
  from A B C D updateTracks_fresh [of w dets fw fh now] show ?thesis by blast
qed

lemma sqrt_49_256th: "sqrt (49 / 256) = 7 / 16"
  by (rule real_sqrt_unique) (simp_all add: power2_eq_square)

lemma near_far_tracked:
  "trackedOf tracking_worker near_far_detections 640 480 =
     [\<lparr>dwc_centroid = \<lparr>xp = 1 / 2, yp = 17 / 32\<rparr>, dwc_detectionIndex = 0, dwc_label = ''person''\<rparr>,
      \<lparr>dwc_centroid = \<lparr>xp = 1 / 2, yp = 31 / 32\<rparr>, dwc_detectionIndex = 1, dwc_label = ''person''\<rparr>]"
  by (simp add: trackedOf_def tracking_worker_def near_far_detections_def worker_eval)

lemma near_far_first:
  "assignFirst tracking_worker near_far_detections 640 480 100330 0 =
     \<lparr>a_tracks = [(1, person_track)], a_nextTrackId = 2, updatedTrackIds = [], assignedIds = []\<rparr>"
  "assignFirst tracking_worker near_far_detections 640 480 100330 (Suc 0) =
     \<lparr>a_tracks = [(1, person_track\<lparr>prevCentroid := \<lparr>xp = 1 / 2, yp = 15 / 32\<rparr>,
                                   centroid := \<lparr>xp = 1 / 2, yp = 17 / 32\<rparr>,
                                   lastSeenMs := 100330\<rparr>)],
      a_nextTrackId = 2, updatedTrackIds = [1], assignedIds = [1]\<rparr>"
  "a_nextTrackId (assignFirst tracking_worker near_far_detections 640 480 100330 2) = 3"
  "assignedIds (assignTracks tracking_worker near_far_detections 640 480 100330) = [1, 2]"
  unfolding assignFirst_def assignTracks_trackedOf near_far_tracked
  by (simp_all add: tracking_worker_def person_track_def worker_eval sqrt_49_256th numeral_2_eq_2)

lemma near_far_distances:
  "trackDistance \<lparr>xp = 1 / 2, yp = 17 / 32\<rparr> person_track = 1 / 16"
  "trackDistance \<lparr>xp = 1 / 2, yp = 31 / 32\<rparr>
     (person_track\<lparr>prevCentroid := \<lparr>xp = 1 / 2, yp = 15 / 32\<rparr>,
                   centroid := \<lparr>xp = 1 / 2, yp = 17 / 32\<rparr>, lastSeenMs := 100330\<rparr>) = 7 / 16"
  by (simp_all add: trackDistance_def person_track_def Let_def double_0 double_dyadic
      sqrt_256th sqrt_49_256th)

lemma near_far_updated:
  "map fst (m_tracks (fst (updateTracks tracking_worker near_far_detections 640 480 100330))) = [1, 2]"
  by (simp add: tracking_worker_def person_track_def near_far_detections_def worker_eval
      sqrt_49_256th)

theorem C5_matching_and_eviction_witness:
  "tracks_inv (m_tracks tracking_worker) (m_nextTrackId tracking_worker) \<and>
   length (trackedOf tracking_worker near_far_detections 640 480) = 2 \<and>
   assignedIds (assignTracks tracking_worker near_far_detections 640 480 100330) = [1, 2] \<and>
   a_tracks (assignFirst tracking_worker near_far_detections 640 480 100330 0) = [(1, person_track)] \<and>
   trackDistance (dwc_centroid (trackedOf tracking_worker near_far_detections 640 480 ! 0))
     person_track < MAX_TRACK_DISTANCE \<and>
   centroidDistance (dwc_centroid (trackedOf tracking_worker near_far_detections 640 480 ! 0))
     person_track < 1 / 10 + 1 / 10 ^ 16 \<and>
   map fst (a_tracks (assignFirst tracking_worker near_far_detections 640 480 100330 1)) = [1] \<and>
   MAX_TRACK_DISTANCE \<le>
     trackDistance (dwc_centroid (trackedOf tracking_worker near_far_detections 640 480 ! 1))
       (snd (hd (a_tracks (assignFirst tracking_worker near_far_detections 640 480 100330 1)))) \<and>
   a_nextTrackId (assignFirst tracking_worker near_far_detections 640 480 100330 1) = 2 \<and>
   map_of (a_tracks (assignFirst tracking_worker near_far_detections 640 480 100330 1)) 2 = None \<and>
   a_nextTrackId (assignFirst tracking_worker near_far_detections 640 480 100330 2) = 3 \<and>
   map fst (m_tracks (fst (updateTracks tracking_worker near_far_detections 640 480 100330))) = [1, 2] \<and>
   100330 - lastSeenMs (snd (hd (m_tracks
       (fst (updateTracks tracking_worker near_far_detections 640 480 100330))))) \<le> 2000 \<and>
   map fst (m_tracks (fst (updateTracks tracking_worker [person_at 320 465] 640 480 103000))) = [2]"
proof -
  let ?m = "m_tracks (fst (updateTracks tracking_worker near_far_detections 640 480 100330))"
  have l: "length (trackedOf tracking_worker near_far_detections 640 480) = 2"
    by (simp add: near_far_tracked)
  then have j: "0 < length (trackedOf tracking_worker near_far_detections 640 480)"
    "1 < length (trackedOf tracking_worker near_far_detections 640 480)"
    by simp_all
  note t0 = C5_matching_and_eviction [OF tracking_worker_inv j(1), of 100330]
  note t1 = C5_matching_and_eviction [OF tracking_worker_inv j(2), of 100330]
  have m: "MAX_TRACK_DISTANCE = 3602879701896397 / 36028797018963968"
    using t0 by blast
  from t0 have "map_of (a_tracks (assignFirst tracking_worker near_far_detections 640 480 100330 0))
               (assignedIds (assignTracks tracking_worker near_far_detections 640 480 100330) ! 0)
               = Some person_track \<longrightarrow>
       trackDistance (dwc_centroid (trackedOf tracking_worker near_far_detections 640 480 ! 0))
         person_track < MAX_TRACK_DISTANCE \<and>
       centroidDistance (dwc_centroid (trackedOf tracking_worker near_far_detections 640 480 ! 0))
         person_track < 1 / 10 + 1 / 10 ^ 16"
    by blast
  then have a: "trackDistance (dwc_centroid (trackedOf tracking_worker near_far_detections 640 480 ! 0))
         person_track < MAX_TRACK_DISTANCE \<and>
       centroidDistance (dwc_centroid (trackedOf tracking_worker near_far_detections 640 480 ! 0))
         person_track < 1 / 10 + 1 / 10 ^ 16"
    by (simp add: near_far_first)
  have f: "\<forall>kv \<in> set (a_tracks (assignFirst tracking_worker near_far_detections 640 480 100330 1)).
      MAX_TRACK_DISTANCE \<le>
        trackDistance (dwc_centroid (trackedOf tracking_worker near_far_detections 640 480 ! 1)) (snd kv)"
    by (simp add: near_far_first near_far_tracked near_far_distances m)
  with t1 have b: "map_of (a_tracks (assignFirst tracking_worker near_far_detections 640 480 100330 1))
         (a_nextTrackId (assignFirst tracking_worker near_far_detections 640 480 100330 1)) = None \<and>
       a_nextTrackId (assignFirst tracking_worker near_far_detections 640 480 100330 (Suc 1)) =
         a_nextTrackId (assignFirst tracking_worker near_far_detections 640 480 100330 1) + 1"
    by blast
  have n: "a_nextTrackId (assignFirst tracking_worker near_far_detections 640 480 100330 1) = 2"
    by (simp add: near_far_first)
  have e: "map fst ?m = [1, 2]"
    by (rule near_far_updated)
  then have "hd ?m \<in> set ?m"
    by (cases ?m) simp_all
  with t1 have c: "100330 - lastSeenMs (snd (hd ?m)) \<le> 2000"
    by blast
  from f have d: "MAX_TRACK_DISTANCE \<le>
     trackDistance (dwc_centroid (trackedOf tracking_worker near_far_detections 640 480 ! 1))
       (snd (hd (a_tracks (assignFirst tracking_worker near_far_detections 640 480 100330 1))))"
    by (simp add: near_far_first)
  from b n have b': "map_of (a_tracks (assignFirst tracking_worker near_far_detections 640 480 100330 1)) 2 = None"
    "a_nextTrackId (assignFirst tracking_worker near_far_detections 640 480 100330 2) = 3"
    by (simp_all add: numeral_2_eq_2)
  have g: "map fst (m_tracks (fst (updateTracks tracking_worker [person_at 320 465] 640 480 103000))) = [2]"
    by (simp add: tracking_worker_def person_track_def worker_eval sqrt_4th)
  from tracking_worker_inv l a d n b' e c g near_far_first(1,2,4) show ?thesis
    by simp
qed

end
